theory Spec2Isabelle
  imports Complex_Main "HOL-Library.Word" "HOL-Library.Signed_Division" "HOL-Library.Multiset"
begin

unbundle bit_operations_syntax

chapter \<open>The fantom-api-graphql server: model\<close>

text \<open>
  A shallow embedding of the parts of the API server that the specification talks about:
  the list-size clamp and the subscription identifiers of the resolvers, the gas-speed and
  daily-flow queries of the database bridge, the contract validator, the transaction-flow
  updater service, the resolver's broadcast loop and the peer synchronisation of validated
  contracts. Go errors are values of type \<open>error\<close> (the error's message); a \<open>nil\<close> error is
  \<open>None\<close>.
\<close>

type_synonym byte = "8 word"
type_synonym int32 = "32 word"
type_synonym uint32 = "32 word"
type_synonym error = string
type_synonym uint64 = "64 word"

text \<open>A logger is the list of the entries written to it, each with its level.\<close>

datatype level = Debug | Info | Notice | Error | Critical

type_synonym logger = "(level \<times> string) list"

section \<open>Resolvers: clamping a requested list size\<close>

text \<open>
  \<^verbatim>\<open>func listLimitCount(count int32, limit uint32) int32\<close>. Both types are 32-bit words;
  \<open>int32(limit)\<close> and \<open>uint32(count)\<close> reinterpret the same bits, comparisons on \<open>int32\<close>
  are signed (\<open><s\<close>), the comparison \<open>uint32(count) < limit\<close> is unsigned, and unary minus
  wraps around.
\<close>

definition listLimitCount :: "int32 \<Rightarrow> uint32 \<Rightarrow> int32" where
  "listLimitCount cnt limit =
     (if cnt = 0 then limit
      else if (0 <s cnt \<and> cnt < limit) \<or> (cnt <s 0 \<and> (- limit) <s cnt) then cnt
      else if cnt <s 0 then - limit
      else limit)"

section \<open>Resolvers: subscription identifiers\<close>

text \<open>
  The formatting verb \<open>%x\<close> of Go's \<open>fmt\<close> package, applied to a byte slice: two lower-case
  hexadecimal digits per byte, taken from the digit table \<open>ldigits\<close> of the package, the high
  nibble first.
\<close>

definition ldigits :: string where
  "ldigits = ''0123456789abcdefx''"

definition fmt_x_byte :: "byte \<Rightarrow> string" where
  "fmt_x_byte b = [ldigits ! unat (drop_bit 4 b), ldigits ! unat (b AND 0xF)]"

definition fmt_x :: "byte list \<Rightarrow> string" where
  "fmt_x bs = concat (map fmt_x_byte bs)"

text \<open>The slice expression \<open>xs[lo:hi]\<close>.\<close>

definition go_slice :: "'a list \<Rightarrow> nat \<Rightarrow> nat \<Rightarrow> 'a list" where
  "go_slice xs lo hi = take (hi - lo) (drop lo xs)"

text \<open>
  The random source, as \<open>io.ReadFull\<close> sees it: the bytes it can still deliver and the error
  it reports when they do not fill the buffer. \<open>io.ReadFull r buf\<close> copies as many bytes as
  fit, and returns the number copied and an error exactly when the buffer was not filled.
\<close>

datatype reader = Reader (avail: "byte list") (short_err: error)

definition io_ReadFull :: "reader \<Rightarrow> byte list \<Rightarrow> byte list \<times> nat \<times> error option" where
  "io_ReadFull r buf =
     (let n = min (length buf) (length (avail r))
      in (take n (avail r) @ drop n buf, n,
          if n = length buf then None else Some (short_err r)))"

text \<open>
  \<^verbatim>\<open>func uuid() (string, error)\<close>. \<open>uuid_stamp\<close> is the two assignments that fix the
  variant and the version bits (\<open>&^\<close> is AND NOT and binds tighter than \<open>|\<close>);
  \<open>sprintf_uuid\<close> is the final \<open>fmt.Sprintf("%x-%x-%x-%x-%x", ...)\<close>. The container always
  has 16 bytes, so the indices 6 and 8 are in range.
\<close>

definition uuid_stamp :: "byte list \<Rightarrow> byte list" where
  "uuid_stamp u0 =
     (let u1 = u0[8 := ((u0 ! 8) AND NOT 0xc0) OR 0x80];
          u2 = u1[6 := ((u1 ! 6) AND NOT 0xf0) OR 0x40]
      in u2)"

definition sprintf_uuid :: "byte list \<Rightarrow> string" where
  "sprintf_uuid u =
     fmt_x (go_slice u 0 4) @ ''-'' @ fmt_x (go_slice u 4 6) @ ''-'' @ fmt_x (go_slice u 6 8) @ ''-''
       @ fmt_x (go_slice u 8 10) @ ''-'' @ fmt_x (go_slice u 10 (length u))"

definition uuid :: "reader \<Rightarrow> string \<times> error option" where
  "uuid rand_Reader =
     (case io_ReadFull rand_Reader (replicate 16 0) of (u0, n, err) \<Rightarrow>
        if n \<noteq> length u0 \<or> err \<noteq> None then ('''', err)
        else (sprintf_uuid (uuid_stamp u0), None))"

text \<open>
  The textual shape of an identifier is stated with two auxiliary functions: the groups
  between separators, and the lower-case hexadecimal digits.
\<close>

fun split_on :: "char \<Rightarrow> string \<Rightarrow> string list" where
  "split_on c [] = [[]]"
| "split_on c (x # xs) =
     (if x = c then [] # split_on c xs
      else (case split_on c xs of g # gs \<Rightarrow> (x # g) # gs | [] \<Rightarrow> [[x]]))"

definition is_hex :: "char \<Rightarrow> bool" where
  "is_hex c = (c \<in> set ''0123456789abcdef'')"

section \<open>Time\<close>

text \<open>
  The values of Go's \<open>time\<close> package that the sources use. An instant (\<open>time.Time\<close>, always
  taken in UTC here) is the number of nanoseconds since the Unix epoch; a \<open>time.Duration\<close>
  is a count of nanoseconds in an \<open>int64\<close>. \<open>Sub\<close> saturates at the largest and smallest
  duration, as the package documents. \<open>Seconds\<close> is the package's
  \<open>float64(d / Second) + float64(d % Second) / 1e9\<close> with truncating division; the model
  computes it exactly, in the reals, where the program rounds to a \<open>float64\<close>.
\<close>

type_synonym Time = int
type_synonym Duration = int

definition Nanosecond :: Duration where "Nanosecond = 1"
definition Second :: Duration where "Second = 1000000000"
definition Minute :: Duration where "Minute = 60 * Second"
definition Hour :: Duration where "Hour = 60 * Minute"

definition minDuration :: Duration where "minDuration = - (2 ^ 63)"
definition maxDuration :: Duration where "maxDuration = 2 ^ 63 - 1"

definition Before :: "Time \<Rightarrow> Time \<Rightarrow> bool" where
  "Before t u = (t < u)"

definition Sub :: "Time \<Rightarrow> Time \<Rightarrow> Duration" where
  "Sub t u =
     (let d = t - u
      in if d < minDuration then minDuration else if maxDuration < d then maxDuration else d)"

definition Add :: "Time \<Rightarrow> Duration \<Rightarrow> Time" where
  "Add t d = t + d"

definition Seconds :: "Duration \<Rightarrow> real" where
  "Seconds d =
     (let sec = d sdiv Second; nsec = d smod Second
      in real_of_int sec + real_of_int nsec / 1000000000)"

text \<open>
  \<open>Clock\<close> gives the hour, minute and second within the day of an instant, and
  \<open>Nanosecond_of\<close> the nanosecond within its second (the method \<open>Time.Nanosecond\<close>).
\<close>

definition Clock :: "Time \<Rightarrow> int \<times> int \<times> int" where
  "Clock t =
     (let sec = (t div Second) mod 86400;
          hour = sec div 3600;
          sec1 = sec - hour * 3600;
          mi = sec1 div 60;
          sec2 = sec1 - mi * 60
      in (hour, mi, sec2))"

definition Nanosecond_of :: "Time \<Rightarrow> int" where
  "Nanosecond_of t = t mod Second"

section \<open>Database bridge: gas speed\<close>

text \<open>
  \<^verbatim>\<open>func (db *MongoDbBridge) TrxGasSpeed(from *time.Time, to *time.Time) (float64, error)\<close>
  and its helper \<open>trxGasSpeed\<close>. The database is outside the program: \<open>col_Aggregate\<close> is
  its answer to the aggregation over the given range, an error or a cursor. A cursor is
  the list of documents it still holds, each given by what decoding its \<open>volume\<close> into an
  \<open>int64\<close> yields, an error or the number. Both pointers are dereferenced unconditionally,
  so they are values here. Logging is left out of the database functions.
\<close>

datatype cursor = Cursor (pending: "(error + int) list")

definition trxGasSpeed :: "cursor \<Rightarrow> Time \<Rightarrow> Time \<Rightarrow> real \<times> error option" where
  "trxGasSpeed cr from to =
     (case pending cr of
        [] \<Rightarrow> (0, Some ''gas speed aggregation failure'')
      | d # _ \<Rightarrow>
          (case d of
             Inl err \<Rightarrow> (0, Some err)
           | Inr Volume \<Rightarrow> (real_of_int Volume / Seconds (Sub to from), None)))"

definition TrxGasSpeed ::
  "(Time \<Rightarrow> Time \<Rightarrow> error + cursor) \<Rightarrow> Time \<Rightarrow> Time \<Rightarrow> real \<times> error option" where
  "TrxGasSpeed col_Aggregate from to =
     (if \<not> Before from to then (0, Some ''invalid time range requested'')
      else
        (case col_Aggregate from to of
           Inl err \<Rightarrow> (0, Some err)
         | Inr cr \<Rightarrow> trxGasSpeed cr from to))"

section \<open>Database bridge: the daily transaction flow\<close>

text \<open>
  \<^verbatim>\<open>func (db *MongoDbBridge) TrxDailyFlowUpdate(from time.Time) error\<close> sends one
  aggregation pipeline to the database. The model gives each stage of the pipeline as a
  function, in the order of the source: \<open>$match\<close> keeps the transactions stamped at or
  after \<open>from\<close>; \<open>$group\<close> makes one document per day, with the sum of the amounts, the sum
  of the gas used and the number of transactions; \<open>$project\<close> adds the day as a date;
  \<open>$merge\<close> writes each document into the collection \<open>trx_volume\<close> on its \<open>_id\<close>, replacing
  a document that matches and inserting one that does not. A collection keyed by \<open>_id\<close> is
  a map, since the database keeps \<open>_id\<close> unique. The operators \<open>$dateToString\<close> (with the
  format \<open>%Y-%m-%d\<close>) and \<open>$toDate\<close> are the database's, and are parameters, as is the
  error that the driver may report; the model leaves the collection as it was when the
  driver reports one.
\<close>

record trx =
  trx_stamp :: Time
  trx_amo :: int
  trx_gas_use :: int

record grouped =
  g_id :: string
  g_volume :: int
  g_gas :: int
  g_value :: int

record DailyTrxVolume =
  vol_id :: string
  vol_stamp :: Time
  vol_volume :: int
  vol_value :: int
  vol_gas :: int

record mongo_ops =
  dateToString :: "Time \<Rightarrow> string"
  toDate :: "string \<Rightarrow> Time"
  aggregate_err :: "Time \<Rightarrow> error option"

record mongo_db =
  transactions :: "trx list"
  trx_volume :: "string \<rightharpoonup> DailyTrxVolume"

definition stage_match :: "Time \<Rightarrow> trx list \<Rightarrow> trx list" where
  "stage_match from txs = filter (\<lambda>t. from \<le> trx_stamp t) txs"

definition stage_group :: "(Time \<Rightarrow> string) \<Rightarrow> trx list \<Rightarrow> grouped list" where
  "stage_group day txs =
     map (\<lambda>d. let ts = filter (\<lambda>t. day (trx_stamp t) = d) txs
              in \<lparr>g_id = d, g_volume = sum_list (map trx_amo ts),
                  g_gas = sum_list (map trx_gas_use ts), g_value = int (length ts)\<rparr>)
         (remdups (map (\<lambda>t. day (trx_stamp t)) txs))"

definition stage_project :: "(string \<Rightarrow> Time) \<Rightarrow> grouped list \<Rightarrow> DailyTrxVolume list" where
  "stage_project date gs =
     map (\<lambda>g. \<lparr>vol_id = g_id g, vol_stamp = date (g_id g), vol_volume = g_volume g,
                vol_value = g_value g, vol_gas = g_gas g\<rparr>) gs"

fun stage_merge ::
  "DailyTrxVolume list \<Rightarrow> (string \<rightharpoonup> DailyTrxVolume) \<Rightarrow> (string \<rightharpoonup> DailyTrxVolume)" where
  "stage_merge [] col = col"
| "stage_merge (d # ds) col = stage_merge ds (col(vol_id d \<mapsto> d))"

definition TrxDailyFlowUpdate :: "mongo_ops \<Rightarrow> Time \<Rightarrow> mongo_db \<Rightarrow> error option \<times> mongo_db" where
  "TrxDailyFlowUpdate ops from db =
     (case aggregate_err ops from of
        Some err \<Rightarrow> (Some err, db)
      | None \<Rightarrow>
          (None,
           db\<lparr>trx_volume :=
                stage_merge
                  (stage_project (toDate ops)
                     (stage_group (dateToString ops) (stage_match from (transactions db))))
                  (trx_volume db)\<rparr>))"

section \<open>Contract validator\<close>

text \<open>
  \<open>strings.EqualFold\<close>, for the ASCII strings that the rendering of an address consists
  of: two strings are equal under case folding when they have the same length and agree
  at every position up to the case of a letter.
\<close>

definition fold_eq :: "char \<Rightarrow> char \<Rightarrow> bool" where
  "fold_eq sr tr =
     (sr = tr
      \<or> (let lo = min (of_char sr :: nat) (of_char tr); hi = max (of_char sr :: nat) (of_char tr)
         in 65 \<le> lo \<and> lo \<le> 90 \<and> hi = lo + 32))"

fun EqualFold :: "string \<Rightarrow> string \<Rightarrow> bool" where
  "EqualFold [] [] = True"
| "EqualFold (sr # s) (tr # t) = (fold_eq sr tr \<and> EqualFold s t)"
| "EqualFold _ _ = False"

text \<open>
  A transaction as the validator reads it: the fields of \<open>types.Transaction\<close> that the
  sources use. An address and a hash are given by their renderings (\<open>String()\<close>); the
  contract address is a pointer that may be \<open>nil\<close>.
\<close>

record Transaction =
  Hash :: string
  ContractAddress :: "string option"
  InputData :: "byte list"

text \<open>
  Modelled from the spec: the declaration of \<open>types.Contract\<close> is not among the sources.
  The fields are the ones that the sources read, and the \<open>validated\<close> flag of the
  specification's data model.
\<close>

record Contract =
  Address :: string
  TransactionHash :: string
  Name :: string
  SourceCode :: string
  Version :: string
  SupportContact :: string
  License :: string
  OptimizeRuns :: int32
  IsOptimized :: bool
  Validated :: bool

text \<open>
  \<^verbatim>\<open>func (cv *ContractValidator) ValidateContract(sc *types.Contract) error\<close>. The
  repository's lookup and the validator's own \<open>Compile\<close>, \<open>MatchArtefact\<close> and
  \<open>MarkValidated\<close> are not among the sources and are parameters; \<open>MarkValidated\<close> may
  change the contract it is given and the store. The state records the log and, in
  order, the calls that were made, so that a step that did not run is a call that is not
  in the record. \<open>sc\<close> is dereferenced unconditionally, so it is a value here.
\<close>

datatype cv_call =
  Call_Transaction string
| Call_Compile string
| Call_MatchArtefact
| Call_MarkValidated

record 'db cv_state =
  cv_log :: logger
  cv_calls :: "cv_call list"
  cv_store :: 'db

record ('arts, 'art, 'db) cv_env =
  repo_Transaction :: "string \<Rightarrow> error + Transaction"
  cv_Compile :: "string \<Rightarrow> error + 'arts"
  cv_MatchArtefact :: "'arts \<Rightarrow> byte list \<Rightarrow> 'art option"
  cv_MarkValidated :: "Contract \<Rightarrow> 'art \<Rightarrow> 'db \<Rightarrow> error option \<times> Contract \<times> 'db"

definition cv_called :: "cv_call \<Rightarrow> 'db cv_state \<Rightarrow> 'db cv_state" where
  "cv_called c st = st\<lparr>cv_calls := cv_calls st @ [c]\<rparr>"

definition cv_Errorf :: "string \<Rightarrow> 'db cv_state \<Rightarrow> 'db cv_state" where
  "cv_Errorf msg st = st\<lparr>cv_log := cv_log st @ [(Error, msg)]\<rparr>"

definition ValidateContract ::
  "('arts, 'art, 'db) cv_env \<Rightarrow> Contract \<Rightarrow> 'db cv_state
     \<Rightarrow> error option \<times> Contract \<times> 'db cv_state" where
  "ValidateContract cv sc st =
     (let st1 = cv_called (Call_Transaction (TransactionHash sc)) st
      in case repo_Transaction cv (TransactionHash sc) of
           Inl err \<Rightarrow> (Some err, sc, cv_Errorf (''contract deployment not found; '' @ err) st1)
         | Inr tx \<Rightarrow>
             if (case ContractAddress tx of
                   None \<Rightarrow> True
                 | Some a \<Rightarrow> \<not> EqualFold a (Address sc))
             then (Some ''invalid contract details'', sc,
                   cv_Errorf (''invalid contract deployment tx '' @ Hash tx @ '' for '' @ Address sc)
                     st1)
             else
               (let st2 = cv_called (Call_Compile (SourceCode sc)) st1
                in case cv_Compile cv (SourceCode sc) of
                     Inl err \<Rightarrow> (Some err, sc, cv_Errorf (''compilation failed; '' @ err) st2)
                   | Inr artefacts \<Rightarrow>
                       (let st3 = cv_called Call_MatchArtefact st2
                        in case cv_MatchArtefact cv artefacts (InputData tx) of
                             None \<Rightarrow>
                               (Some ''deployed contract does not match the source code provided'',
                                sc, st3)
                           | Some art \<Rightarrow>
                               (let st4 = cv_called Call_MarkValidated st3
                                in case cv_MarkValidated cv sc art (cv_store st4) of
                                     (err, sc', store') \<Rightarrow>
                                       (err, sc', st4\<lparr>cv_store := store'\<rparr>)))))"

section \<open>Transaction flow updater\<close>

text \<open>
  The constants of the service, and the repository's
  \<^verbatim>\<open>func (p *proxy) TrxFlowUpdate()\<close>. The clock reading \<open>time.Now().UTC()\<close> is an
  argument, and \<open>trxFlowFrom\<close> is the expression that computes \<open>from\<close> out of it. The
  state of the service holds the logger, the shared wait group's counter, whether each of
  the two tickers is running, the database, and the rest of the repository (its caches).
  The repository's \<open>TransactionsCount\<close> and \<open>UpdateTrxCountEstimate\<close> are not among the
  sources and are parameters. The state also records, in order, the calls made to the
  database bridge and to these two, with what they answered.
\<close>

definition trxFlowUpdaterPeriod :: Duration where
  "trxFlowUpdaterPeriod = 7 * Minute"

definition trxCountUpdaterPeriod :: Duration where
  "trxCountUpdaterPeriod = 30 * Minute"

definition trxFlowUpdateRange :: Duration where
  "trxFlowUpdateRange = - 2 * 24 * Hour"

datatype repo_call =
  Call_TrxDailyFlowUpdate Time "error option"
| Call_TransactionsCount "error + uint64"
| Call_UpdateTrxCountEstimate uint64

record 'r repo_ops =
  mongo :: mongo_ops
  TransactionsCount :: "mongo_db \<Rightarrow> 'r \<Rightarrow> error + uint64"
  UpdateTrxCountEstimate :: "uint64 \<Rightarrow> 'r \<Rightarrow> 'r"

record 'r tfu_state =
  tfu_log :: logger
  tfu_calls :: "repo_call list"
  tfu_wg :: int
  flowTicker_running :: bool
  trxCountTicker_running :: bool
  tfu_db :: mongo_db
  tfu_repo :: 'r

definition tfu_logf :: "level \<Rightarrow> string \<Rightarrow> 'r tfu_state \<Rightarrow> 'r tfu_state" where
  "tfu_logf lv msg s = s\<lparr>tfu_log := tfu_log s @ [(lv, msg)]\<rparr>"

definition tfu_called :: "repo_call \<Rightarrow> 'r tfu_state \<Rightarrow> 'r tfu_state" where
  "tfu_called c s = s\<lparr>tfu_calls := tfu_calls s @ [c]\<rparr>"

definition trxFlowFrom :: "Time \<Rightarrow> Time" where
  "trxFlowFrom now =
     (case Clock now of (h, m, sec) \<Rightarrow>
        Add (Add (Add now (- (h * 3600 + m * 60 + sec) * Second))
               (- Nanosecond_of now * Nanosecond))
          trxFlowUpdateRange)"

definition TrxFlowUpdate :: "'r repo_ops \<Rightarrow> Time \<Rightarrow> 'r tfu_state \<Rightarrow> 'r tfu_state" where
  "TrxFlowUpdate p now s =
     (let from = trxFlowFrom now
      in case TrxDailyFlowUpdate (mongo p) from (tfu_db s) of (err, db') \<Rightarrow>
           let s1 = tfu_called (Call_TrxDailyFlowUpdate from err) (s\<lparr>tfu_db := db'\<rparr>);
               s2 = (case err of
                       Some e \<Rightarrow> tfu_logf Critical (''can not update trx flow; '' @ e) s1
                     | None \<Rightarrow> s1)
           in tfu_logf Debug ''trx flow updated'' s2)"

text \<open>\<^verbatim>\<open>func (tfu *txFlowUpdater) updateTrxCountEstimate()\<close>.\<close>

definition updateTrxCountEstimate :: "'r repo_ops \<Rightarrow> 'r tfu_state \<Rightarrow> 'r tfu_state" where
  "updateTrxCountEstimate p s =
     (let r = TransactionsCount p (tfu_db s) (tfu_repo s);
          s1 = tfu_called (Call_TransactionsCount r) s
      in case r of
           Inl err \<Rightarrow> tfu_logf Error (''can not update trx count estimation; '' @ err) s1
         | Inr val \<Rightarrow>
             tfu_called (Call_UpdateTrxCountEstimate val)
               (s1\<lparr>tfu_repo := UpdateTrxCountEstimate p val (tfu_repo s1)\<rparr>))"

text \<open>
  \<^verbatim>\<open>func (tfu *txFlowUpdater) schedule()\<close>. The loop is a \<open>select\<close> over the stop
  channel and the two ticker channels; what it does is determined by the sequence of the
  cases that \<open>select\<close> takes, which is the list of events here. A flow tick carries the
  clock reading that \<open>TrxFlowUpdate\<close> makes. When the list is used up and no stop signal
  was taken, the loop waits forever: the result \<open>None\<close>. The two goroutines
  \<open>go tfu.updateTrxCountEstimate()\<close> are run where they are launched. The deferred
  function runs when the loop returns. \<open>tfu_run\<close> is the method \<open>run\<close>, which enters the
  wait group and starts \<open>schedule\<close>.
\<close>

datatype tfu_event = SigStop | FlowTick Time | CountTick

fun tfu_loop :: "'r repo_ops \<Rightarrow> tfu_event list \<Rightarrow> 'r tfu_state \<Rightarrow> 'r tfu_state option" where
  "tfu_loop p [] s = None"
| "tfu_loop p (SigStop # evs) s = Some s"
| "tfu_loop p (FlowTick now # evs) s =
     tfu_loop p evs (TrxFlowUpdate p now (tfu_logf Info ''calling for trx flow update'' s))"
| "tfu_loop p (CountTick # evs) s =
     tfu_loop p evs (updateTrxCountEstimate p (tfu_logf Info ''calling for trx count update'' s))"

definition tfu_deferred :: "'r tfu_state \<Rightarrow> 'r tfu_state" where
  "tfu_deferred s =
     (let s1 = s\<lparr>flowTicker_running := False\<rparr>;
          s2 = s1\<lparr>trxCountTicker_running := False\<rparr>;
          s3 = tfu_logf Notice ''trx flow updater is closed'' s2
      in s3\<lparr>tfu_wg := tfu_wg s3 - 1\<rparr>)"

definition schedule :: "'r repo_ops \<Rightarrow> tfu_event list \<Rightarrow> 'r tfu_state \<Rightarrow> 'r tfu_state option" where
  "schedule p evs s =
     (let s1 = tfu_logf Notice ''trx flow updater is running'' s;
          s2 = s1\<lparr>flowTicker_running := True\<rparr>;
          s3 = s2\<lparr>trxCountTicker_running := True\<rparr>;
          s4 = updateTrxCountEstimate p s3
      in case tfu_loop p evs s4 of
           None \<Rightarrow> None
         | Some s5 \<Rightarrow> Some (tfu_deferred s5))"

definition tfu_run :: "'r repo_ops \<Rightarrow> tfu_event list \<Rightarrow> 'r tfu_state \<Rightarrow> 'r tfu_state option" where
  "tfu_run p evs s = schedule p evs (s\<lparr>tfu_wg := tfu_wg s + 1\<rparr>)"

text \<open>
  What the specification says of the calls, as functions on the record of calls: the
  midnight that begins the UTC day of an instant; the calls that one refresh of the
  count estimate makes (a failed read, or a read followed by the publication of the value
  read); the calls that belong to one event; and the error messages that a list of calls
  gives rise to.
\<close>

definition utc_midnight :: "Time \<Rightarrow> Time" where
  "utc_midnight t = t - t mod (86400 * Second)"

fun refresh_block :: "repo_call list \<Rightarrow> bool" where
  "refresh_block [Call_TransactionsCount (Inl e)] = True"
| "refresh_block [Call_TransactionsCount (Inr v), Call_UpdateTrxCountEstimate v'] = (v = v')"
| "refresh_block cs = False"

fun event_block :: "tfu_event \<Rightarrow> repo_call list \<Rightarrow> bool" where
  "event_block (FlowTick now) [Call_TrxDailyFlowUpdate from r] =
     (from = utc_midnight now - 48 * Hour)"
| "event_block CountTick cs = refresh_block cs"
| "event_block ev cs = False"

fun call_errors :: "repo_call \<Rightarrow> logger" where
  "call_errors (Call_TrxDailyFlowUpdate from (Some e)) =
     [(Critical, ''can not update trx flow; '' @ e)]"
| "call_errors (Call_TransactionsCount (Inl e)) =
     [(Error, ''can not update trx count estimation; '' @ e)]"
| "call_errors c = []"

definition is_error_entry :: "level \<times> string \<Rightarrow> bool" where
  "is_error_entry e = (fst e = Error \<or> fst e = Critical)"







section \<open>Resolver: the broadcast loop\<close>

text \<open>
  \<^verbatim>\<open>func (rs *rootResolver) run()\<close>, started by \<open>New\<close> after \<open>rs.wg.Add(1)\<close>. As for the
  updater, the list of events is the sequence of the cases that \<open>select\<close> takes. The two
  registries are maps from the subscriber's identifier. The methods that add a subscriber
  and dispatch an event are not among the sources and are parameters; they act on the
  registries and on whatever else they reach (the subscribers' channels), which is the
  component \<open>rs_chans\<close>.
\<close>

datatype ('bs, 'ts, 'b, 't) rs_event =
  RsStop
| UnsubscribeOnBlock string
| UnsubscribeOnTrx string
| SubscribeOnBlock 'bs
| SubscribeOnTrx 'ts
| OnBlockEvent 'b
| OnTrxEvent 't

record ('bs, 'ts, 'c) rs_subs =
  blockSubscribers :: "string \<rightharpoonup> 'bs"
  trxSubscribers :: "string \<rightharpoonup> 'ts"
  rs_chans :: 'c

record ('bs, 'ts, 'c) rs_state =
  rs_log :: logger
  rs_wg :: int
  rs_subs :: "('bs, 'ts, 'c) rs_subs"

record ('bs, 'ts, 'b, 't, 'c) rs_ops =
  addBlockSubscriber :: "'bs \<Rightarrow> ('bs, 'ts, 'c) rs_subs \<Rightarrow> ('bs, 'ts, 'c) rs_subs"
  addTrxSubscriber :: "'ts \<Rightarrow> ('bs, 'ts, 'c) rs_subs \<Rightarrow> ('bs, 'ts, 'c) rs_subs"
  dispatchOnBlock :: "'b \<Rightarrow> ('bs, 'ts, 'c) rs_subs \<Rightarrow> ('bs, 'ts, 'c) rs_subs"
  dispatchOnTransaction :: "'t \<Rightarrow> ('bs, 'ts, 'c) rs_subs \<Rightarrow> ('bs, 'ts, 'c) rs_subs"

definition rs_logf :: "level \<Rightarrow> string \<Rightarrow> ('bs, 'ts, 'c) rs_state \<Rightarrow> ('bs, 'ts, 'c) rs_state" where
  "rs_logf lv msg s = s\<lparr>rs_log := rs_log s @ [(lv, msg)]\<rparr>"

definition rs_on_subs ::
  "(('bs, 'ts, 'c) rs_subs \<Rightarrow> ('bs, 'ts, 'c) rs_subs) \<Rightarrow> ('bs, 'ts, 'c) rs_state
     \<Rightarrow> ('bs, 'ts, 'c) rs_state" where
  "rs_on_subs f s = s\<lparr>rs_subs := f (rs_subs s)\<rparr>"

fun rs_loop ::
  "('bs, 'ts, 'b, 't, 'c) rs_ops \<Rightarrow> ('bs, 'ts, 'b, 't) rs_event list \<Rightarrow> ('bs, 'ts, 'c) rs_state
     \<Rightarrow> ('bs, 'ts, 'c) rs_state option" where
  "rs_loop rs [] s = None"
| "rs_loop rs (RsStop # evs) s = Some s"
| "rs_loop rs (UnsubscribeOnBlock sid # evs) s =
     rs_loop rs evs
       (rs_on_subs (\<lambda>u. u\<lparr>blockSubscribers := (blockSubscribers u)(sid := None)\<rparr>) s)"
| "rs_loop rs (UnsubscribeOnTrx sid # evs) s =
     rs_loop rs evs
       (rs_on_subs (\<lambda>u. u\<lparr>trxSubscribers := (trxSubscribers u)(sid := None)\<rparr>) s)"
| "rs_loop rs (SubscribeOnBlock sub # evs) s =
     rs_loop rs evs (rs_on_subs (addBlockSubscriber rs sub) s)"
| "rs_loop rs (SubscribeOnTrx sub # evs) s =
     rs_loop rs evs (rs_on_subs (addTrxSubscriber rs sub) s)"
| "rs_loop rs (OnBlockEvent evt # evs) s =
     rs_loop rs evs (rs_on_subs (dispatchOnBlock rs evt) s)"
| "rs_loop rs (OnTrxEvent evt # evs) s =
     rs_loop rs evs (rs_on_subs (dispatchOnTransaction rs evt) s)"

definition rs_deferred :: "('bs, 'ts, 'c) rs_state \<Rightarrow> ('bs, 'ts, 'c) rs_state" where
  "rs_deferred s =
     (let s1 = rs_logf Notice ''GraphQL resolver done'' s
      in s1\<lparr>rs_wg := rs_wg s1 - 1\<rparr>)"

definition rs_run ::
  "('bs, 'ts, 'b, 't, 'c) rs_ops \<Rightarrow> ('bs, 'ts, 'b, 't) rs_event list \<Rightarrow> ('bs, 'ts, 'c) rs_state
     \<Rightarrow> ('bs, 'ts, 'c) rs_state option" where
  "rs_run rs evs s =
     (case rs_loop rs evs (rs_logf Notice ''GraphQL resolver started'' s) of
        None \<Rightarrow> None
      | Some s1 \<Rightarrow> Some (rs_deferred s1))"

section \<open>Resolvers: peer synchronisation of validated contracts\<close>

text \<open>
  The constants, \<open>contractSyncInput\<close> and \<open>constructMutationPayload\<close>. The declaration of
  \<open>ContractValidationInput\<close> is not among the sources; its fields are the ones that
  \<open>contractSyncInput\<close> sets, an optional field being a pointer that may be \<open>nil\<close>.
\<close>

definition contractSyncMutationQuery :: string where
  "contractSyncMutationQuery =
     ''mutation($sc:ContractValidationInput!) { validateContract(contract: $sc) { validated } }''"

definition contractSyncCallTimeout :: Duration where
  "contractSyncCallTimeout = 60 * Second"

record ContractValidationInput =
  in_Address :: string
  in_Name :: "string option"
  in_SourceCode :: string
  in_OptimizeRuns :: int32
  in_Optimized :: bool
  in_Version :: "string option"
  in_SupportContact :: "string option"
  in_License :: "string option"

definition contractSyncInput :: "Contract \<Rightarrow> ContractValidationInput" where
  "contractSyncInput con =
     (let cInput = \<lparr>in_Address = Address con, in_Name = Some (Name con),
                     in_SourceCode = SourceCode con, in_OptimizeRuns = OptimizeRuns con,
                     in_Optimized = IsOptimized con, in_Version = None,
                     in_SupportContact = None, in_License = None\<rparr>;
          cInput = (if 0 < length (Version con)
                    then cInput\<lparr>in_Version := Some (Version con)\<rparr> else cInput);
          cInput = (if 0 < length (SupportContact con)
                    then cInput\<lparr>in_SupportContact := Some (SupportContact con)\<rparr> else cInput);
          cInput = (if 0 < length (License con)
                    then cInput\<lparr>in_License := Some (License con)\<rparr> else cInput)
      in cInput)"

record payload =
  Query :: string
  Variables :: "(string \<times> ContractValidationInput) list"

definition mutation_payload :: "Contract \<Rightarrow> payload" where
  "mutation_payload con =
     \<lparr>Query = contractSyncMutationQuery, Variables = [(''sc'', contractSyncInput con)]\<rparr>"

text \<open>
  A request of \<open>net/http\<close>: its method, URL and headers, the bytes of its body, and the
  timeout of the context it was made with. The network is a parameter: whether a request
  can be made for a method and a URL, and what \<open>client.Do\<close> gives for a request: a failure
  before the request was written (the body was not read), a failure after it, or a
  response with its status code.
\<close>

record request =
  Method :: string
  URL :: string
  Header :: "string \<rightharpoonup> string"
  Body :: string
  Timeout :: Duration

datatype do_result = DialError error | RoundTripError error | Response nat

record net_ops =
  json_bytes :: "payload \<Rightarrow> string"
  NewRequest_err :: "string \<Rightarrow> string \<Rightarrow> error option"
  client_Do :: "request \<Rightarrow> do_result"

text \<open>
  \<^verbatim>\<open>json.NewEncoder(&buf).Encode(payload)\<close> and \<open>constructMutationPayload\<close>. The bytes of
  the encoding are Go's matter and are a parameter of the model (\<open>json_bytes\<close>). The
  encoder reports an error only for a value that has no JSON encoding (a channel, a
  function, a complex number, a number that is not finite, a cyclic value), or when a
  marshalling method of a value or the writer fails. The payload is made of strings,
  optional strings, a truth value, an integer and an address, whose marshalling method
  gives its hexadecimal text, and it is written to a buffer in memory, whose \<open>Write\<close> does
  not fail. So \<open>Encode\<close> has no failing case on this payload: it writes the encoding and
  returns \<open>nil\<close>. The test of the error that follows the call is kept as it is in the
  source.
\<close>

definition json_Encode :: "net_ops \<Rightarrow> payload \<Rightarrow> error + string" where
  "json_Encode net p = Inr (json_bytes net p)"

definition constructMutationPayload ::
  "(payload \<Rightarrow> error + string) \<Rightarrow> Contract \<Rightarrow> string \<times> error option" where
  "constructMutationPayload Encode con =
     (case Encode (mutation_payload con) of
        Inl err \<Rightarrow> ('''', Some err)
      | Inr enc \<Rightarrow> (enc, None))"

text \<open>
  The state that \<open>syncContract\<close> and its goroutines share: the logger; the counter of the
  wait group \<open>wg\<close>; the unread bytes of the buffer \<open>payload\<close>; and, in order, the requests
  that were handed to \<open>client.Do\<close>. All goroutines are given the same pointers \<open>&payload\<close>
  and \<open>&wg\<close>. A request made from a \<open>*bytes.Buffer\<close> reads its body from that buffer when
  it is written to the connection, and reading a buffer consumes it: the body of a
  request is what the buffer holds, and the buffer is empty once a request was written.
\<close>

record sync_state =
  sync_log :: logger
  sync_wg :: int
  payload_buf :: string
  issued :: "request list"

definition sync_logf :: "level \<Rightarrow> string \<Rightarrow> sync_state \<Rightarrow> sync_state" where
  "sync_logf lv msg s = s\<lparr>sync_log := sync_log s @ [(lv, msg)]\<rparr>"

text \<open>The formatting verb \<open>%d\<close> for a status code.\<close>

function fmt_d :: "nat \<Rightarrow> string" where
  "fmt_d n = (if n < 10 then [''0123456789'' ! n] else fmt_d (n div 10) @ [''0123456789'' ! (n mod 10)])"
  by pat_completeness auto
termination
  by (relation "measure id") auto

declare fmt_d.simps [simp del]

text \<open>
  \<^verbatim>\<open>func syncContractToPeer(payload *bytes.Buffer, peer string, origin string,
    wg *sync.WaitGroup, lg logger.Logger)\<close>. \<open>sync_deferred\<close> is the deferred function.
\<close>

definition sync_deferred :: "string \<Rightarrow> sync_state \<Rightarrow> sync_state" where
  "sync_deferred peer s =
     (let s1 = sync_logf Notice (''syncing '' @ peer @ '' finished'') s
      in s1\<lparr>sync_wg := sync_wg s1 - 1\<rparr>)"

definition syncContractToPeer :: "net_ops \<Rightarrow> string \<Rightarrow> string \<Rightarrow> sync_state \<Rightarrow> sync_state" where
  "syncContractToPeer net peer origin s =
     (let s1 = sync_logf Debug (''syncing contract validation to '' @ peer @ '' from '' @ origin) s
      in case NewRequest_err net ''POST'' peer of
           Some err \<Rightarrow>
             sync_deferred peer
               (sync_logf Error (''can not create new POST request for '' @ peer @ '' peer'') s1)
         | None \<Rightarrow>
             (let req = \<lparr>Method = ''POST'', URL = peer,
                         Header = [''Content-Type'' \<mapsto> ''application/json'', ''Origin'' \<mapsto> origin],
                         Body = payload_buf s1, Timeout = contractSyncCallTimeout\<rparr>;
                  s2 = s1\<lparr>issued := issued s1 @ [req]\<rparr>
              in case client_Do net req of
                   DialError err \<Rightarrow>
                     sync_deferred peer
                       (sync_logf Error
                          (''can not finalize syncing request for '' @ peer @ '' peer; '' @ err) s2)
                 | RoundTripError err \<Rightarrow>
                     sync_deferred peer
                       (sync_logf Error
                          (''can not finalize syncing request for '' @ peer @ '' peer; '' @ err)
                          (s2\<lparr>payload_buf := ''''\<rparr>))
                 | Response StatusCode \<Rightarrow>
                     (let s3 = s2\<lparr>payload_buf := ''''\<rparr>
                      in if 200 \<noteq> StatusCode
                         then sync_deferred peer
                                (sync_logf Error
                                   (''syncing request to '' @ peer @ '' has been rejected with code ''
                                      @ fmt_d StatusCode) s3)
                         else sync_deferred peer
                                (sync_logf Debug
                                   (''syncing request to '' @ peer @ '' finished with success'')
                                   s3))))"

text \<open>
  \<^verbatim>\<open>func (rs *rootResolver) syncContract(con types.Contract)\<close>. The loop over the peers
  enters the wait group once for each and launches its goroutine. The goroutines run
  concurrently; the model runs each of them as a whole, in an order that a scheduler
  picks: at its \<open>k\<close>-th choice among \<open>n\<close> goroutines that have not run yet it takes the one
  at position \<open>sched k mod n\<close>. \<open>wg.Wait()\<close> returns when the counter is zero; a counter
  that is not zero when all goroutines have finished would never become zero, and the
  call would not return: the result \<open>None\<close>.
\<close>

record server_config =
  Peers :: "string list"
  DomainAddress :: string

fun launch :: "string list \<Rightarrow> sync_state \<Rightarrow> sync_state" where
  "launch [] s = s"
| "launch (peer # peers) s = launch peers (s\<lparr>sync_wg := sync_wg s + 1\<rparr>)"

function run_goroutines ::
  "net_ops \<Rightarrow> string \<Rightarrow> (nat \<Rightarrow> nat) \<Rightarrow> nat \<Rightarrow> string list \<Rightarrow> sync_state \<Rightarrow> sync_state" where
  "run_goroutines net origin sched k peers s =
     (if peers = [] then s
      else
        (let i = sched k mod length peers
         in run_goroutines net origin sched (Suc k) (take i peers @ drop (Suc i) peers)
              (syncContractToPeer net (peers ! i) origin s)))"
  by pat_completeness auto
termination
proof (relation "measure (\<lambda>(net, origin, sched, k, peers, s). length peers)", goal_cases)
  case 1
  show ?case by simp
next
  case (2 net origin sched k peers s i)
  define j where "j = sched k mod length peers"
  have "j < length peers" using 2 by (simp add: j_def)
  then have "j + (length peers - Suc j) < length peers" by arith
  then show ?case using 2 by (simp add: j_def)
qed

declare run_goroutines.simps [simp del]

definition syncContract ::
  "net_ops \<Rightarrow> (nat \<Rightarrow> nat) \<Rightarrow> server_config \<Rightarrow> Contract \<Rightarrow> sync_state \<Rightarrow> sync_state option" where
  "syncContract net sched cfg con s =
     (if length (Peers cfg) \<le> 0
      then Some (sync_logf Debug ''no peers for contract validation syncing'' s)
      else
        (case constructMutationPayload (json_Encode net) con of
           (buf, Some err) \<Rightarrow>
             Some (sync_logf Error (''can not construct the sync payload; '' @ err) s)
         | (buf, None) \<Rightarrow>
             (let s1 = s\<lparr>payload_buf := buf, sync_wg := 0\<rparr>;
                  s2 = launch (Peers cfg) s1;
                  s3 = sync_logf Debug ''waiting for validation syncing to finish'' s2;
                  s4 = run_goroutines net (DomainAddress cfg) sched 0 (Peers cfg) s3
              in if sync_wg s4 = 0
                 then Some (sync_logf Debug ''validation syncing finished'' s4)
                 else None)))"

text \<open>
  Example data for the daily flow: a database that tells two days apart, and two
  transactions on the first day.
\<close>

definition day_ops :: mongo_ops where
  "day_ops = \<lparr>dateToString = (\<lambda>t. if t < 86400000000000 then ''1970-01-01'' else ''1970-01-02''),
              toDate = (\<lambda>s. if s = ''1970-01-01'' then 0 else 86400000000000),
              aggregate_err = (\<lambda>_. None)\<rparr>"

definition day_db :: mongo_db where
  "day_db = \<lparr>transactions =
               [\<lparr>trx_stamp = 10, trx_amo = 5, trx_gas_use = 21000\<rparr>,
                \<lparr>trx_stamp = 20, trx_amo = 7, trx_gas_use = 30000\<rparr>],
             trx_volume = Map.empty\<rparr>"

text \<open>
  Example data for the validator: a repository that does not know the transaction
  \<open>0xdead\<close> and gives every other one the contract address \<open>0xAAaa\<close>, and a compiler and
  a matcher that accept everything.
\<close>

definition cv_example :: "(unit, unit, nat) cv_env" where
  "cv_example =
     \<lparr>repo_Transaction =
        (\<lambda>h. if h = ''0xdead'' then Inl ''not found''
             else Inr \<lparr>Hash = h, ContractAddress = Some ''0xAAaa'', InputData = []\<rparr>),
      cv_Compile = (\<lambda>src. Inr ()),
      cv_MatchArtefact = (\<lambda>arts code. Some ()),
      cv_MarkValidated = (\<lambda>sc art store. (None, sc\<lparr>Validated := True\<rparr>, Suc store))\<rparr>"

definition contract_example :: "string \<Rightarrow> string \<Rightarrow> Contract" where
  "contract_example addr txh =
     \<lparr>Address = addr, TransactionHash = txh, Name = ''Token'', SourceCode = ''contract Token {}'',
      Version = '''', SupportContact = '''', License = ''MIT'', OptimizeRuns = 200,
      IsOptimized = True, Validated = False\<rparr>"

definition cv_state0 :: "nat cv_state" where
  "cv_state0 = \<lparr>cv_log = [], cv_calls = [], cv_store = 0\<rparr>"


text \<open>
  A later state of the service extends an earlier one by a list of calls when the record
  of calls grew by exactly that list, the logger grew by entries whose error entries are
  the messages of the failed calls among them, and the wait group and the tickers are as
  they were.
\<close>

definition tfu_extends :: "'r tfu_state \<Rightarrow> repo_call list \<Rightarrow> 'r tfu_state \<Rightarrow> bool" where
  "tfu_extends s cs s' =
     (tfu_calls s' = tfu_calls s @ cs
      \<and> (\<exists>lg. tfu_log s' = tfu_log s @ lg
               \<and> filter is_error_entry lg = concat (map call_errors cs))
      \<and> tfu_wg s' = tfu_wg s
      \<and> flowTicker_running s' = flowTicker_running s
      \<and> trxCountTicker_running s' = trxCountTicker_running s)"

text \<open>
  Example data for the updater: a repository whose count query fails while the cached
  estimate is 0, and a state of the service that has entered the wait group.
\<close>

definition repo_example :: "nat repo_ops" where
  "repo_example =
     \<lparr>mongo = day_ops,
      TransactionsCount =
        (\<lambda>db cached. if cached = 0 then Inl ''timeout'' else Inr (of_nat (length (transactions db)))),
      UpdateTrxCountEstimate = (\<lambda>val cached. unat val)\<rparr>"

definition tfu_state0 :: "nat \<Rightarrow> nat tfu_state" where
  "tfu_state0 cached =
     \<lparr>tfu_log = [], tfu_calls = [], tfu_wg = 1, flowTicker_running = False,
      trxCountTicker_running = False, tfu_db = day_db, tfu_repo = cached\<rparr>"

text \<open>
  Example data for the resolver: subscribers are registered under their own name, and a
  dispatched event is appended to the one channel.
\<close>

definition rs_example :: "(string, string, nat, nat, nat list) rs_ops" where
  "rs_example =
     \<lparr>addBlockSubscriber = (\<lambda>sub u. u\<lparr>blockSubscribers := (blockSubscribers u)(sub \<mapsto> sub)\<rparr>),
      addTrxSubscriber = (\<lambda>sub u. u\<lparr>trxSubscribers := (trxSubscribers u)(sub \<mapsto> sub)\<rparr>),
      dispatchOnBlock = (\<lambda>evt u. u\<lparr>rs_chans := rs_chans u @ [evt]\<rparr>),
      dispatchOnTransaction = (\<lambda>evt u. u\<lparr>rs_chans := rs_chans u @ [evt]\<rparr>)\<rparr>"

definition rs_state0 :: "(string, string, nat list) rs_state" where
  "rs_state0 =
     \<lparr>rs_log = [], rs_wg = 1,
      rs_subs = \<lparr>blockSubscribers = Map.empty, trxSubscribers = Map.empty, rs_chans = []\<rparr>\<rparr>"

text \<open>
  The entry that the deferred function of an attempt writes for a peer, and the entries of
  that level.
\<close>

definition finished_notice :: "string \<Rightarrow> level \<times> string" where
  "finished_notice peer = (Notice, ''syncing '' @ peer @ '' finished'')"





text \<open>
  Example data for the peer synchronisation: a network in which every request can be made
  and every peer answers with a status code that depends on its URL; a configuration with
  two peers; the summary of a request.
\<close>

definition net_example :: "(string \<Rightarrow> nat) \<Rightarrow> net_ops" where
  "net_example status =
     \<lparr>json_bytes = (\<lambda>p. ''{query: '' @ Query p @ ''}''),
      NewRequest_err = (\<lambda>method url. None),
      client_Do = (\<lambda>req. Response (status (URL req)))\<rparr>"

definition cfg_example :: server_config where
  "cfg_example = \<lparr>Peers = [''http://peer1/api'', ''http://peer2/api''],
                  DomainAddress = ''https://api.example.org''\<rparr>"

definition sync_state0 :: sync_state where
  "sync_state0 = \<lparr>sync_log = [], sync_wg = 0, payload_buf = [], issued = []\<rparr>"

definition request_summary ::
  "request \<Rightarrow> string \<times> string \<times> string option \<times> string option \<times> string \<times> Duration" where
  "request_summary r =
     (Method r, URL r, Header r ''Content-Type'', Header r ''Origin'', Body r, Timeout r)"

chapter \<open>Properties\<close>

section \<open>The list-size clamp\<close>

lemma sint_small: "uint L \<le> 2 ^ 31 - 1 \<Longrightarrow> sint (L::32 word) = uint L"
proof -
  assume a: "uint L \<le> 2 ^ 31 - 1"
  have "- (2 ^ 31) \<le> uint L" "uint L < 2 ^ 31"
    using a uint_ge_0 [of L] by arith+
  then have "signed_take_bit 31 (uint L) = uint L"
    by (rule signed_take_bit_int_eq_self)
  then show ?thesis by (simp add: sint_uint)
qed

lemma sint_neg_small: "uint L \<le> 2 ^ 31 - 1 \<Longrightarrow> sint (- (L::32 word)) = - uint L"
proof -
  assume a: "uint L \<le> 2 ^ 31 - 1"
  have "- (2 ^ 31) \<le> - uint L" "- uint L < 2 ^ 31"
    using a uint_ge_0 [of L] by arith+
  then have "signed_take_bit 31 (- uint L) = - uint L"
    by (rule signed_take_bit_int_eq_self)
  then show ?thesis using a by (simp add: sint_word_ariths sint_small)
qed

lemma uint_of_nonneg: "0 \<le> sint (c::32 word) \<Longrightarrow> uint c = sint c"
proof -
  assume a: "0 \<le> sint c"
  have "take_bit 32 (sint c) = sint c"
    using a sint_lt [of c] by (simp add: take_bit_int_eq_self)
  then show ?thesis by (simp add: uint_sint)
qed

lemma sint_zero_iff: "sint (c::32 word) = 0 \<longleftrightarrow> c = 0"
  by (metis signed_eq_0_iff)

text \<open>
  C5 (as stated). The claim quantifies over every positive limit of the function's type
  \<open>uint32\<close>. At the limit \<open>2\<^sup>3\<^sup>1\<close>, which is positive, the conversion \<open>int32(limit)\<close> wraps, and
  a zero count is answered with \<open>-2\<^sup>3\<^sup>1\<close>, not with the limit.
\<close>

theorem listLimitCount_large_limit_counterexample:
  "0 < uint (0x80000000 :: uint32)
   \<and> sint (listLimitCount 0 0x80000000) = - 2147483648
   \<and> sint (listLimitCount 0 0x80000000) \<noteq> uint (0x80000000 :: uint32)"
  by (simp add: listLimitCount_def)

text \<open>
  C5 (amended). For every 32-bit count \<open>c\<close> and every positive limit \<open>L\<close> that is at most
  \<open>2\<^sup>3\<^sup>1 - 1\<close> (so that it is a positive \<open>int32\<close> too): a zero count gives \<open>L\<close>; a non-zero
  count with \<open>|c| < L\<close> is returned unchanged; a count with \<open>|c| \<ge> L\<close> gives \<open>sign(c) * L\<close>.
  The cases are read in this order, as the specification lists them. The four examples of
  the specification follow.
\<close>

theorem listLimitCount_clamp:
  assumes "0 < uint L" and "uint L \<le> 2 ^ 31 - 1"
  shows "sint (listLimitCount 0 L) = uint L
       \<and> (c \<noteq> 0 \<and> \<bar>sint c\<bar> < uint L \<longrightarrow> listLimitCount c L = c)
       \<and> (c \<noteq> 0 \<and> \<bar>sint c\<bar> \<ge> uint L \<longrightarrow> sint (listLimitCount c L) = sgn (sint c) * uint L)
       \<and> sint (listLimitCount 150 100) = 100 \<and> sint (listLimitCount (- 150) 100) = - 100
       \<and> sint (listLimitCount 50 100) = 50 \<and> sint (listLimitCount 0 100) = 100"
proof -
  have sL: "sint L = uint L" and sN: "sint (- L) = - uint L"
    using assms by (simp_all add: sint_small sint_neg_small)
  have z: "sint c = 0 \<longleftrightarrow> c = 0" by (rule sint_zero_iff)
  have up: "0 \<le> sint c \<Longrightarrow> uint c = sint c" by (rule uint_of_nonneg)
  have c1: "sint (listLimitCount 0 L) = uint L"
    by (simp add: listLimitCount_def sL)
  have c2: "c \<noteq> 0 \<and> \<bar>sint c\<bar> < uint L \<longrightarrow> listLimitCount c L = c"
    using z up sN by (auto simp: listLimitCount_def word_sless_alt word_less_def)
  have c3: "c \<noteq> 0 \<and> \<bar>sint c\<bar> \<ge> uint L \<longrightarrow> sint (listLimitCount c L) = sgn (sint c) * uint L"
    using z up sN sL by (auto simp: listLimitCount_def word_sless_alt word_less_def)
  have ex: "sint (listLimitCount 150 100) = 100" "sint (listLimitCount (- 150) 100) = - 100"
    "sint (listLimitCount 50 100) = 50" "sint (listLimitCount 0 100) = 100"
    by (simp_all add: listLimitCount_def word_sless_alt word_less_def)
  from c1 c2 c3 ex show ?thesis by (intro conjI)
qed

theorem listLimitCount_clamp_witness:
  "0 < uint (100 :: uint32) \<and> uint (100 :: uint32) \<le> 2 ^ 31 - 1
   \<and> sint (listLimitCount 0 100) = 100
   \<and> 50 \<noteq> (0 :: int32) \<and> \<bar>sint (50 :: int32)\<bar> < uint (100 :: uint32)
   \<and> listLimitCount 50 100 = 50
   \<and> - 150 \<noteq> (0 :: int32) \<and> uint (100 :: uint32) \<le> \<bar>sint (- 150 :: int32)\<bar>
   \<and> sint (listLimitCount (- 150) 100) = - 100"
proof -
  have h1: "0 < uint (100 :: uint32)" and h2: "uint (100 :: uint32) \<le> 2 ^ 31 - 1"
    by simp_all
  have a: "50 \<noteq> (0 :: int32) \<and> \<bar>sint (50 :: int32)\<bar> < uint (100 :: uint32)" by simp
  have b: "- 150 \<noteq> (0 :: int32) \<and> uint (100 :: uint32) \<le> \<bar>sint (- 150 :: int32)\<bar>" by simp
  note inside = listLimitCount_clamp [OF h1 h2, of 50]
  note outside = listLimitCount_clamp [OF h1 h2, of "- 150"]
  have 1: "sint (listLimitCount 0 100) = uint (100 :: uint32)"
    by (rule inside [THEN conjunct1])
  have 2: "listLimitCount 50 100 = 50"
    by (rule inside [THEN conjunct2, THEN conjunct1, rule_format, OF a])
  have 3: "sint (listLimitCount (- 150) 100) = sgn (sint (- 150 :: int32)) * uint (100 :: uint32)"
    by (rule outside [THEN conjunct2, THEN conjunct2, THEN conjunct1, rule_format, OF b])
  from 1 have r1: "sint (listLimitCount 0 100) = 100" by simp
  from 3 have r3: "sint (listLimitCount (- 150) 100) = - 100" by simp
  from h1 h2 r1 a 2 b r3 show ?thesis by (intro conjI) (erule conjunct1 conjunct2 | assumption)+
qed

section \<open>Subscription identifiers\<close>

lemma byte_cases: "list_all (\<lambda>n. P (of_nat n :: byte)) [0..<256] \<Longrightarrow> P x"
proof -
  assume "list_all (\<lambda>n. P (of_nat n :: byte)) [0..<256]"
  then have a: "\<forall>n<256. P (of_nat n)" by (simp add: list_all_iff)
  have "unat x < 256" using unsigned_less [of x, where ?'a = nat] by simp
  with a have "P (of_nat (unat x))" by blast
  then show ?thesis by simp
qed

lemma hi_nibble_lt: "unat (drop_bit 4 (b::byte)) < 16"
  by (rule byte_cases) code_simp

lemma lo_nibble_lt: "unat ((b::byte) AND 0xF) < 16"
proof -
  have "unat (b AND 0xF) \<le> unat (0xF :: byte)"
    by (rule word_and_le1 [THEN word_le_nat_alt [THEN iffD1]])
  then show ?thesis by simp
qed

lemma all_below_16: "list_all P [0..<16] \<Longrightarrow> n < 16 \<Longrightarrow> P n"
  by (simp add: list_all_iff)

lemma ldigits_hex: "n < 16 \<Longrightarrow> is_hex (ldigits ! n)"
proof -
  have "list_all (\<lambda>n. is_hex (ldigits ! n)) [0..<16]"
    by code_simp
  then show "n < 16 \<Longrightarrow> is_hex (ldigits ! n)" by (rule all_below_16)
qed

lemma ldigits_inj: "i < 16 \<Longrightarrow> j < 16 \<Longrightarrow> ldigits ! i = ldigits ! j \<Longrightarrow> i = j"
proof -
  have "distinct (take 16 ldigits)" by (simp add: ldigits_def)
  moreover assume "i < 16" "j < 16" "ldigits ! i = ldigits ! j"
  ultimately show ?thesis
    using nth_eq_iff_index_eq [of "take 16 ldigits" i j] by (simp add: ldigits_def del: take_Suc_Cons take_Cons_numeral)
qed

lemma nibbles_eq: "drop_bit 4 (a::byte) = drop_bit 4 b \<Longrightarrow> a AND 0xF = b AND 0xF \<Longrightarrow> a = b"
proof -
  assume h: "drop_bit 4 a = drop_bit 4 b" and l: "a AND 0xF = b AND 0xF"
  have m: "take_bit 4 x = x AND 0xF" for x :: byte
    by (simp add: take_bit_eq_mask mask_numeral)
  have "a = push_bit 4 (drop_bit 4 a) + take_bit 4 a" by (simp add: bits_ident)
  also have "\<dots> = push_bit 4 (drop_bit 4 b) + take_bit 4 b" using h l by (simp add: m)
  also have "\<dots> = b" by (simp add: bits_ident)
  finally show ?thesis .
qed

lemma version_nibble: "drop_bit 4 (((x::byte) AND NOT 0xf0) OR 0x40) = 4"
  by simp

lemma variant_bits: "(((x::byte) AND NOT 0xc0) OR 0x80) AND 0xc0 = 0x80"
  by (simp add: bit.conj_disj_distrib2 and.assoc)


lemma variant_nibble: "unat (drop_bit 4 (((x::byte) AND NOT 0xc0) OR 0x80)) \<in> {8, 9, 10, 11}"
  by (rule byte_cases) code_simp

lemma variant_char: "ldigits ! unat (drop_bit 4 (((x::byte) AND NOT 0xc0) OR 0x80)) \<in> set ''89ab''"
  by (rule byte_cases) code_simp


lemma fmt_x_byte_inj: "fmt_x_byte a = fmt_x_byte b \<Longrightarrow> a = b"
proof -
  assume "fmt_x_byte a = fmt_x_byte b"
  then have h: "ldigits ! unat (drop_bit 4 a) = ldigits ! unat (drop_bit 4 b)"
    and l: "ldigits ! unat (a AND 0xF) = ldigits ! unat (b AND 0xF)"
    by (simp_all add: fmt_x_byte_def)
  from h have "unat (drop_bit 4 a) = unat (drop_bit 4 b)"
    by (rule ldigits_inj [OF hi_nibble_lt hi_nibble_lt])
  then have "drop_bit 4 a = drop_bit 4 b"
    by (rule word_unat_eq_iff [THEN iffD2])
  moreover from l have "unat (a AND 0xF) = unat (b AND 0xF)"
    by (rule ldigits_inj [OF lo_nibble_lt lo_nibble_lt])
  then have "a AND 0xF = b AND 0xF"
    by (rule word_unat_eq_iff [THEN iffD2])
  ultimately show "a = b" by (rule nibbles_eq)
qed

lemma fmt_x_Cons: "fmt_x (b # bs) = fmt_x_byte b @ fmt_x bs"
  by (simp add: fmt_x_def)

lemma fmt_x_Nil: "fmt_x [] = []"
  by (simp add: fmt_x_def)

lemma length_fmt_x_byte: "length (fmt_x_byte b) = 2"
  by (simp add: fmt_x_byte_def)

lemma length_fmt_x: "length (fmt_x bs) = 2 * length bs"
  by (induction bs) (simp_all add: fmt_x_Nil fmt_x_Cons length_fmt_x_byte)

lemma fmt_x_inj: "fmt_x xs = fmt_x ys \<Longrightarrow> xs = ys"
proof (induction xs arbitrary: ys)
  case Nil
  then have "length (fmt_x ys) = 0" by (simp add: fmt_x_Nil)
  then show ?case by (simp add: length_fmt_x)
next
  case (Cons x xs)
  from Cons.prems have "length (fmt_x ys) = 2 * Suc (length xs)"
    by (metis length_fmt_x length_Cons)
  then obtain y ys' where ys: "ys = y # ys'"
    by (cases ys) (simp_all add: length_fmt_x)
  from Cons.prems have "fmt_x_byte x @ fmt_x xs = fmt_x_byte y @ fmt_x ys'"
    by (simp add: ys fmt_x_Cons)
  then have "fmt_x_byte x = fmt_x_byte y" and "fmt_x xs = fmt_x ys'"
    by (simp_all add: length_fmt_x_byte)
  then show ?case using Cons.IH fmt_x_byte_inj ys by blast
qed

lemma fmt_x_byte_hex: "list_all is_hex (fmt_x_byte b)"
  by (simp add: fmt_x_byte_def ldigits_hex hi_nibble_lt lo_nibble_lt)

lemma fmt_x_hex: "list_all is_hex (fmt_x bs)"
  by (induction bs) (simp_all add: fmt_x_Nil fmt_x_Cons fmt_x_byte_hex)

lemma dash_not_in_fmt_x: "CHR ''-'' \<notin> set (fmt_x bs)"
proof
  assume "CHR ''-'' \<in> set (fmt_x bs)"
  with fmt_x_hex [of bs] have "is_hex CHR ''-''" by (simp add: list_all_iff)
  then show False by (simp add: is_hex_def)
qed

lemma split_on_no_sep: "c \<notin> set g \<Longrightarrow> split_on c g = [g]"
  by (induction g) auto

lemma split_on_sep: "c \<notin> set g \<Longrightarrow> split_on c (g @ c # xs) = g # split_on c xs"
  by (induction g) auto

lemma split_sprintf_uuid:
  "split_on CHR ''-'' (sprintf_uuid u) =
     [fmt_x (go_slice u 0 4), fmt_x (go_slice u 4 6), fmt_x (go_slice u 6 8), fmt_x (go_slice u 8 10),
      fmt_x (go_slice u 10 (length u))]"
  by (simp add: sprintf_uuid_def split_on_sep split_on_no_sep dash_not_in_fmt_x)

lemma take_drop_step: "take n (drop m u) @ drop (m + n) u = drop m u"
  by (metis append_take_drop_id drop_drop add.commute)

lemma go_slices_cover:
  "length u = 16 \<Longrightarrow>
   go_slice u 0 4 @ go_slice u 4 6 @ go_slice u 6 8 @ go_slice u 8 10 @ go_slice u 10 (length u) = u"
proof -
  assume len: "length u = 16"
  have "take 6 (drop 10 u) = drop 10 u" using len by simp
  moreover have "take 2 (drop 8 u) @ drop 10 u = drop 8 u"
    using take_drop_step [of 2 8 u] by simp
  moreover have "take 2 (drop 6 u) @ drop 8 u = drop 6 u"
    using take_drop_step [of 2 6 u] by simp
  moreover have "take 2 (drop 4 u) @ drop 6 u = drop 4 u"
    using take_drop_step [of 2 4 u] by simp
  moreover have "take 4 u @ drop 4 u = u" by simp
  ultimately show ?thesis using len by (simp add: go_slice_def)
qed

lemma sprintf_uuid_inj:
  assumes "length u = 16" and "length v = 16" and "sprintf_uuid u = sprintf_uuid v"
  shows "u = v"
proof -
  have "split_on CHR ''-'' (sprintf_uuid u) = split_on CHR ''-'' (sprintf_uuid v)"
    using assms(3) by simp
  then have "go_slice u 0 4 = go_slice v 0 4" "go_slice u 4 6 = go_slice v 4 6" "go_slice u 6 8 = go_slice v 6 8"
    "go_slice u 8 10 = go_slice v 8 10" "go_slice u 10 (length u) = go_slice v 10 (length v)"
    by (auto simp only: split_sprintf_uuid list.inject dest: fmt_x_inj)
  then have "go_slice u 0 4 @ go_slice u 4 6 @ go_slice u 6 8 @ go_slice u 8 10 @ go_slice u 10 (length u)
      = go_slice v 0 4 @ go_slice v 4 6 @ go_slice v 6 8 @ go_slice v 8 10 @ go_slice v 10 (length v)"
    by (simp only:)
  then show ?thesis
    by (simp only: go_slices_cover [OF assms(1)] go_slices_cover [OF assms(2)])
qed

lemma length_uuid_stamp: "length (uuid_stamp u) = length u"
  by (simp add: uuid_stamp_def Let_def)

lemma uuid_stamp_6: "length u = 16 \<Longrightarrow> uuid_stamp u ! 6 = ((u ! 6) AND NOT 0xf0) OR 0x40"
  by (simp add: uuid_stamp_def Let_def)

lemma uuid_stamp_8: "length u = 16 \<Longrightarrow> uuid_stamp u ! 8 = ((u ! 8) AND NOT 0xc0) OR 0x80"
  by (simp add: uuid_stamp_def Let_def)

lemma fmt_x_go_slice_hd:
  assumes "lo < hi" and "hi \<le> length u"
  shows "fmt_x (go_slice u lo hi) ! 0 = ldigits ! unat (drop_bit 4 (u ! lo))"
proof -
  have "lo < length u" using assms by simp
  then have d: "drop lo u = u ! lo # drop (Suc lo) u"
    by (rule Cons_nth_drop_Suc [symmetric])
  obtain k where k: "hi - lo = Suc k"
    using assms(1) by (cases "hi - lo") simp_all
  show ?thesis
    by (simp add: go_slice_def d k fmt_x_Cons fmt_x_byte_def)
qed

lemma sprintf_uuid_14:
  "length u = 16 \<Longrightarrow> sprintf_uuid u ! 14 = ldigits ! unat (drop_bit 4 (u ! 6))"
proof -
  assume len: "length u = 16"
  have "sprintf_uuid u ! 14 = fmt_x (go_slice u 6 8) ! 0"
    using len by (simp add: sprintf_uuid_def nth_append length_fmt_x go_slice_def)
  then show ?thesis using len by (simp add: fmt_x_go_slice_hd)
qed

lemma sprintf_uuid_19:
  "length u = 16 \<Longrightarrow> sprintf_uuid u ! 19 = ldigits ! unat (drop_bit 4 (u ! 8))"
proof -
  assume len: "length u = 16"
  have "sprintf_uuid u ! 19 = fmt_x (go_slice u 8 10) ! 0"
    using len by (simp add: sprintf_uuid_def nth_append length_fmt_x go_slice_def)
  then show ?thesis using len by (simp add: fmt_x_go_slice_hd)
qed


lemma uuid_success:
  assumes "16 \<le> length (avail r)"
  shows "uuid r = (sprintf_uuid (uuid_stamp (take 16 (avail r))), None)"
  using assms by (simp add: uuid_def io_ReadFull_def min_def)

lemma version_keeps: "(((x::byte) AND NOT 0xf0) OR 0x40) = (x AND 0x0f) OR 0x40"
  by (rule byte_cases) code_simp

lemma version_low: "(((x::byte) AND NOT 0xf0) OR 0x40) AND 0x0f = x AND 0x0f"
  by (rule byte_cases) code_simp

lemma variant_keeps: "(((x::byte) AND NOT 0xc0) OR 0x80) = (x AND 0x3f) OR 0x80"
  by (rule byte_cases) code_simp

lemma variant_low: "(((x::byte) AND NOT 0xc0) OR 0x80) AND 0x3f = x AND 0x3f"
  by (rule byte_cases) code_simp

lemma version_eq_iff:
  "((x::byte) AND NOT 0xf0) OR 0x40 = (y AND NOT 0xf0) OR 0x40 \<longleftrightarrow> x AND 0x0f = y AND 0x0f"
proof
  assume "(x AND NOT 0xf0) OR 0x40 = (y AND NOT 0xf0) OR 0x40"
  then have "((x AND NOT 0xf0) OR 0x40) AND 0x0f = ((y AND NOT 0xf0) OR 0x40) AND 0x0f"
    by (simp only:)
  then show "x AND 0x0f = y AND 0x0f" by (simp only: version_low)
next
  assume "x AND 0x0f = y AND 0x0f"
  then show "(x AND NOT 0xf0) OR 0x40 = (y AND NOT 0xf0) OR 0x40"
    by (simp only: version_keeps)
qed

lemma variant_eq_iff:
  "((x::byte) AND NOT 0xc0) OR 0x80 = (y AND NOT 0xc0) OR 0x80 \<longleftrightarrow> x AND 0x3f = y AND 0x3f"
proof
  assume "(x AND NOT 0xc0) OR 0x80 = (y AND NOT 0xc0) OR 0x80"
  then have "((x AND NOT 0xc0) OR 0x80) AND 0x3f = ((y AND NOT 0xc0) OR 0x80) AND 0x3f"
    by (simp only:)
  then show "x AND 0x3f = y AND 0x3f" by (simp only: variant_low)
next
  assume "x AND 0x3f = y AND 0x3f"
  then show "(x AND NOT 0xc0) OR 0x80 = (y AND NOT 0xc0) OR 0x80"
    by (simp only: variant_keeps)
qed

lemma uuid_stamp_nth:
  assumes "length u = 16" and "i < 16"
  shows "uuid_stamp u ! i =
           (if i = 6 then ((u ! 6) AND NOT 0xf0) OR 0x40
            else if i = 8 then ((u ! 8) AND NOT 0xc0) OR 0x80 else u ! i)"
  using assms by (simp add: uuid_stamp_def Let_def nth_list_update)

lemma uuid_stamp_eq_iff:
  assumes "length u = 16" and "length v = 16"
  shows "uuid_stamp u = uuid_stamp v \<longleftrightarrow>
           (\<forall>i<16. i \<noteq> 6 \<and> i \<noteq> 8 \<longrightarrow> u ! i = v ! i)
           \<and> (u ! 6) AND 0x0f = (v ! 6) AND 0x0f
           \<and> (u ! 8) AND 0x3f = (v ! 8) AND 0x3f"
proof -
  have "uuid_stamp u = uuid_stamp v \<longleftrightarrow> (\<forall>i<16. uuid_stamp u ! i = uuid_stamp v ! i)"
    using assms by (simp add: list_eq_iff_nth_eq length_uuid_stamp)
  also have "\<dots> \<longleftrightarrow> (\<forall>i<16. i \<noteq> 6 \<and> i \<noteq> 8 \<longrightarrow> u ! i = v ! i)
           \<and> ((u ! 6) AND NOT 0xf0) OR 0x40 = ((v ! 6) AND NOT 0xf0) OR 0x40
           \<and> ((u ! 8) AND NOT 0xc0) OR 0x80 = ((v ! 8) AND NOT 0xc0) OR 0x80"
    (is "?L \<longleftrightarrow> ?R")
  proof
    assume l: ?L
    have "\<forall>i<16. i \<noteq> 6 \<and> i \<noteq> 8 \<longrightarrow> u ! i = v ! i"
    proof (intro allI impI)
      fix i :: nat assume i: "i < 16" and ne: "i \<noteq> 6 \<and> i \<noteq> 8"
      from l i have "uuid_stamp u ! i = uuid_stamp v ! i" by simp
      then show "u ! i = v ! i"
        using ne by (simp add: uuid_stamp_nth [OF assms(1) i] uuid_stamp_nth [OF assms(2) i])
    qed
    moreover from l have "uuid_stamp u ! 6 = uuid_stamp v ! 6" by simp
    then have "((u ! 6) AND NOT 0xf0) OR 0x40 = ((v ! 6) AND NOT 0xf0) OR 0x40"
      by (simp only: uuid_stamp_6 [OF assms(1)] uuid_stamp_6 [OF assms(2)])
    moreover from l have "uuid_stamp u ! 8 = uuid_stamp v ! 8" by simp
    then have "((u ! 8) AND NOT 0xc0) OR 0x80 = ((v ! 8) AND NOT 0xc0) OR 0x80"
      by (simp only: uuid_stamp_8 [OF assms(1)] uuid_stamp_8 [OF assms(2)])
    ultimately show ?R by (intro conjI)
  next
    assume r: ?R
    show ?L
    proof (intro allI impI)
      fix i :: nat assume i: "i < 16"
      show "uuid_stamp u ! i = uuid_stamp v ! i"
        using r i by (simp add: uuid_stamp_nth [OF assms(1) i] uuid_stamp_nth [OF assms(2) i])
    qed
  qed
  finally show ?thesis by (simp only: version_eq_iff variant_eq_iff)
qed

text \<open>
  C6 (amended). When the random source delivers 16 bytes, \<open>uuid\<close> returns (with no error) a
  string of five groups of lower-case hexadecimal digits separated by hyphens, of lengths
  8-4-4-4-12; the first digit of the third group is \<open>4\<close> (the version nibble), and the top two
  bits of the ninth byte are \<open>10\<close>, so that the first digit of the fourth group is one of
  \<open>8\<close>, \<open>9\<close>, \<open>a\<close>, \<open>b\<close>. Two reads give the same identifier exactly when the 16-byte
  values agree on the 122 bits that the version and the variant do not overwrite: on every
  byte other than the bytes 6 and 8, on the low four bits of byte 6 and on the low six bits
  of byte 8. Values that differ in any of these bits give distinct identifiers.
\<close>

theorem uuid_v4:
  assumes "16 \<le> length (avail r)" and "16 \<le> length (avail r')"
  shows "\<exists>s. uuid r = (s, None)
           \<and> map length (split_on CHR ''-'' s) = [8, 4, 4, 4, 12]
           \<and> list_all (list_all is_hex) (split_on CHR ''-'' s)
           \<and> s ! 14 = CHR ''4''
           \<and> s ! 19 \<in> set ''89ab''
           \<and> (uuid_stamp (take 16 (avail r)) ! 8) AND 0xc0 = 0x80
           \<and> (uuid r = uuid r' \<longleftrightarrow>
                (\<forall>i<16. i \<noteq> 6 \<and> i \<noteq> 8 \<longrightarrow> avail r ! i = avail r' ! i)
                \<and> (avail r ! 6) AND 0x0f = (avail r' ! 6) AND 0x0f
                \<and> (avail r ! 8) AND 0x3f = (avail r' ! 8) AND 0x3f)"
proof -
  define u where "u = uuid_stamp (take 16 (avail r))"
  define u' where "u' = uuid_stamp (take 16 (avail r'))"
  define s where "s = sprintf_uuid u"
  have len0: "length (take 16 (avail r)) = 16" and len0': "length (take 16 (avail r')) = 16"
    using assms by simp_all
  have len: "length u = 16" and len': "length u' = 16"
    using assms by (simp_all add: u_def u'_def length_uuid_stamp)
  have res: "uuid r = (s, None)" and res': "uuid r' = (sprintf_uuid u', None)"
    using assms by (simp_all add: uuid_success s_def u_def u'_def)
  have groups: "map length (split_on CHR ''-'' s) = [8, 4, 4, 4, 12]"
    using len by (simp add: s_def split_sprintf_uuid length_fmt_x go_slice_def)
  have hex: "list_all (list_all is_hex) (split_on CHR ''-'' s)"
    by (simp add: s_def split_sprintf_uuid fmt_x_hex)
  have "s ! 14 = ldigits ! unat (drop_bit 4 (u ! 6))"
    using len by (simp add: s_def sprintf_uuid_14)
  also have "u ! 6 = ((take 16 (avail r) ! 6) AND NOT 0xf0) OR 0x40"
    unfolding u_def by (rule uuid_stamp_6 [OF len0])
  finally have version: "s ! 14 = CHR ''4''"
    by (simp only: version_nibble) (simp add: ldigits_def)
  have "s ! 19 = ldigits ! unat (drop_bit 4 (u ! 8))"
    using len by (simp add: s_def sprintf_uuid_19)
  also have u8: "u ! 8 = ((take 16 (avail r) ! 8) AND NOT 0xc0) OR 0x80"
    unfolding u_def by (rule uuid_stamp_8 [OF len0])
  finally have variant: "s ! 19 \<in> set ''89ab''"
    by (simp only: variant_char)
  have bits: "(u ! 8) AND 0xc0 = 0x80"
    by (simp only: u8 variant_bits)
  have inj: "uuid r = uuid r' \<longleftrightarrow> u = u'"
    using sprintf_uuid_inj [OF len len'] by (auto simp: res res' s_def)
  have kept: "u = u' \<longleftrightarrow>
      (\<forall>i<16. i \<noteq> 6 \<and> i \<noteq> 8 \<longrightarrow> avail r ! i = avail r' ! i)
      \<and> (avail r ! 6) AND 0x0f = (avail r' ! 6) AND 0x0f
      \<and> (avail r ! 8) AND 0x3f = (avail r' ! 8) AND 0x3f"
    unfolding u_def u'_def uuid_stamp_eq_iff [OF len0 len0'] by simp
  show ?thesis
  proof (intro exI conjI)
    show "uuid r = (s, None)" by (rule res)
    show "map length (split_on CHR ''-'' s) = [8, 4, 4, 4, 12]" by (rule groups)
    show "list_all (list_all is_hex) (split_on CHR ''-'' s)" by (rule hex)
    show "s ! 14 = CHR ''4''" by (rule version)
    show "s ! 19 \<in> set ''89ab''" by (rule variant)
    show "(uuid_stamp (take 16 (avail r)) ! 8) AND 0xc0 = 0x80"
      using bits by (simp only: u_def)
    show "uuid r = uuid r' \<longleftrightarrow>
        (\<forall>i<16. i \<noteq> 6 \<and> i \<noteq> 8 \<longrightarrow> avail r ! i = avail r' ! i)
        \<and> (avail r ! 6) AND 0x0f = (avail r' ! 6) AND 0x0f
        \<and> (avail r ! 8) AND 0x3f = (avail r' ! 8) AND 0x3f"
      using inj kept by (rule trans)
  qed
qed

theorem uuid_v4_witness:
  "16 \<le> length (avail (Reader (replicate 16 0xff) ''EOF''))
   \<and> 16 \<le> length (avail (Reader ((replicate 16 0xff)[6 := 0x0f, 8 := 0x3f]) ''EOF''))
   \<and> 16 \<le> length (avail (Reader ((replicate 16 0xff)[15 := 0xfe]) ''EOF''))
   \<and> (\<exists>s. uuid (Reader (replicate 16 0xff) ''EOF'') = (s, None)
           \<and> map length (split_on CHR ''-'' s) = [8, 4, 4, 4, 12]
           \<and> s ! 14 = CHR ''4'' \<and> s ! 19 \<in> set ''89ab'')
   \<and> uuid (Reader (replicate 16 0xff) ''EOF'')
       = uuid (Reader ((replicate 16 0xff)[6 := 0x0f, 8 := 0x3f]) ''EOF'')
   \<and> uuid (Reader (replicate 16 0xff) ''EOF'')
       \<noteq> uuid (Reader ((replicate 16 0xff)[15 := 0xfe]) ''EOF'')"
proof -
  let ?a = "replicate 16 (0xff :: byte)"
  let ?b = "?a[6 := 0x0f, 8 := 0x3f]"
  let ?c = "?a[15 := 0xfe]"
  have h: "16 \<le> length (avail (Reader ?a ''EOF''))"
    and h': "16 \<le> length (avail (Reader ?b ''EOF''))"
    and h'': "16 \<le> length (avail (Reader ?c ''EOF''))" by simp_all
  from uuid_v4 [OF h h'] obtain s where
    r1: "uuid (Reader ?a ''EOF'') = (s, None)"
    "map length (split_on CHR ''-'' s) = [8, 4, 4, 4, 12]"
    "s ! 14 = CHR ''4''" "s ! 19 \<in> set ''89ab''"
    and same: "uuid (Reader ?a ''EOF'') = uuid (Reader ?b ''EOF'') \<longleftrightarrow>
        (\<forall>i<16. i \<noteq> 6 \<and> i \<noteq> 8 \<longrightarrow> avail (Reader ?a ''EOF'') ! i = avail (Reader ?b ''EOF'') ! i)
        \<and> (avail (Reader ?a ''EOF'') ! 6) AND 0x0f = (avail (Reader ?b ''EOF'') ! 6) AND 0x0f
        \<and> (avail (Reader ?a ''EOF'') ! 8) AND 0x3f = (avail (Reader ?b ''EOF'') ! 8) AND 0x3f"
    by (elim exE conjE)
  have eq: "uuid (Reader ?a ''EOF'') = uuid (Reader ?b ''EOF'')"
    unfolding same by (simp add: nth_list_update)
  from uuid_v4 [OF h h''] have other: "uuid (Reader ?a ''EOF'') = uuid (Reader ?c ''EOF'') \<longleftrightarrow>
        (\<forall>i<16. i \<noteq> 6 \<and> i \<noteq> 8 \<longrightarrow> avail (Reader ?a ''EOF'') ! i = avail (Reader ?c ''EOF'') ! i)
        \<and> (avail (Reader ?a ''EOF'') ! 6) AND 0x0f = (avail (Reader ?c ''EOF'') ! 6) AND 0x0f
        \<and> (avail (Reader ?a ''EOF'') ! 8) AND 0x3f = (avail (Reader ?c ''EOF'') ! 8) AND 0x3f"
    by (elim exE conjE)
  have "\<not> (\<forall>i<16. i \<noteq> 6 \<and> i \<noteq> 8 \<longrightarrow> avail (Reader ?a ''EOF'') ! i = avail (Reader ?c ''EOF'') ! i)"
    by (simp add: not_less) (rule exI [of _ 15], simp)
  then have ne: "uuid (Reader ?a ''EOF'') \<noteq> uuid (Reader ?c ''EOF'')"
    unfolding other by simp
  from h h' h'' r1 eq ne show ?thesis by (intro conjI exI [of _ s])
qed

text \<open>
  C6 (as stated). Distinct 16-byte values do not always give distinct identifiers: two
  values that differ only in the high nibble of byte 6, which the version overwrites,
  give the same string.
\<close>

theorem uuid_distinct_counterexample:
  "replicate 16 0 \<noteq> (replicate 16 0)[6 := 0x10 :: byte]
   \<and> uuid (Reader (replicate 16 0) ''EOF'') = uuid (Reader ((replicate 16 0)[6 := 0x10]) ''EOF'')"
  by code_simp

section \<open>Gas speed\<close>

lemma Sub_pos: "Before from to \<Longrightarrow> 0 < Sub to from"
  by (auto simp: Before_def Sub_def Let_def minDuration_def maxDuration_def)

lemma div_mod_of_pos:
  fixes S d :: int
  assumes "0 < S" and "0 < d"
  shows "0 \<le> d div S" and "0 \<le> d mod S" and "0 < d div S \<or> 0 < d mod S"
proof -
  show q: "0 \<le> d div S" using assms by (simp add: pos_imp_zdiv_nonneg_iff)
  show "0 \<le> d mod S" using assms by simp
  show "0 < d div S \<or> 0 < d mod S"
  proof (cases "d div S = 0")
    case True
    then have "d mod S = d" using div_mult_mod_eq [of d S] by simp
    then show ?thesis using assms by simp
  next
    case False
    then show ?thesis using q by simp
  qed
qed

lemma Seconds_pos: "0 < d \<Longrightarrow> 0 < Seconds d"
proof -
  assume d: "0 < d"
  have S: "0 < Second" by (simp add: Second_def)
  have q: "d sdiv Second = d div Second" and r: "d smod Second = d mod Second"
    using d S by (simp_all add: signed_divide_int_def signed_modulo_int_def)
  have a: "0 \<le> real_of_int (d div Second)" and b: "0 \<le> real_of_int (d mod Second) / 1000000000"
    using div_mod_of_pos(1,2) [OF S d] by simp_all
  have "0 < real_of_int (d div Second) \<or> 0 < real_of_int (d mod Second) / 1000000000"
    using div_mod_of_pos(3) [OF S d] by simp
  with a b have "0 < real_of_int (d div Second) + real_of_int (d mod Second) / 1000000000"
    by linarith
  then show ?thesis by (simp add: Seconds_def Let_def q r)
qed

text \<open>
  C10. \<open>TrxGasSpeed\<close> returns 0 and the error "invalid time range requested" whenever
  \<open>from\<close> is not strictly before \<open>to\<close>. When it is, the number of seconds that the volume is
  divided by is strictly positive, and a cursor whose first document decodes to a volume
  gives that volume divided by it, with no error.
\<close>

theorem TrxGasSpeed_range:
  "(\<not> Before from to \<longrightarrow>
      TrxGasSpeed col_Aggregate from to = (0, Some ''invalid time range requested''))
   \<and> (Before from to \<longrightarrow>
        0 < Seconds (Sub to from)
        \<and> (\<forall>Volume rest. col_Aggregate from to = Inr (Cursor (Inr Volume # rest)) \<longrightarrow>
              TrxGasSpeed col_Aggregate from to
                = (real_of_int Volume / Seconds (Sub to from), None)))"
  by (simp add: TrxGasSpeed_def trxGasSpeed_def Seconds_pos Sub_pos)

theorem TrxGasSpeed_range_witness:
  "TrxGasSpeed (\<lambda>from to. Inr (Cursor [Inr 42000])) 5000000000 3000000000
     = (0, Some ''invalid time range requested'')
   \<and> Before 3000000000 5000000000
   \<and> 0 < Seconds (Sub 5000000000 3000000000)
   \<and> TrxGasSpeed (\<lambda>from to. Inr (Cursor [Inr 42000])) 3000000000 5000000000 = (21000, None)"
proof -
  let ?db = "\<lambda>from to :: Time. (Inr (Cursor [Inr 42000]) :: error + cursor)"
  have b: "Before 3000000000 5000000000" and nb: "\<not> Before 5000000000 3000000000"
    by (simp_all add: Before_def)
  have s: "Seconds (Sub 5000000000 3000000000) = 2"
    by (simp add: Seconds_def Sub_def Let_def Second_def minDuration_def maxDuration_def
        signed_divide_int_def signed_modulo_int_def)
  have 1: "TrxGasSpeed ?db 5000000000 3000000000 = (0, Some ''invalid time range requested'')"
    using TrxGasSpeed_range [of 5000000000 3000000000 ?db, THEN conjunct1] nb by (rule mp)
  have c: "0 < Seconds (Sub 5000000000 3000000000)
      \<and> (\<forall>Volume rest. ?db 3000000000 5000000000 = Inr (Cursor (Inr Volume # rest)) \<longrightarrow>
            TrxGasSpeed ?db 3000000000 5000000000
              = (real_of_int Volume / Seconds (Sub 5000000000 3000000000), None))"
    using TrxGasSpeed_range [of 3000000000 5000000000 ?db, THEN conjunct2] b by (rule mp)
  from c have 2: "0 < Seconds (Sub 5000000000 3000000000)" by (rule conjunct1)
  from c have "TrxGasSpeed ?db 3000000000 5000000000
      = (real_of_int 42000 / Seconds (Sub 5000000000 3000000000), None)" by simp
  then have 4: "TrxGasSpeed ?db 3000000000 5000000000 = (21000, None)"
    by (simp add: s)
  from 1 b 2 4 show ?thesis by (intro conjI)
qed

section \<open>The daily transaction flow\<close>

lemma stage_merge_other: "k \<notin> vol_id ` set ds \<Longrightarrow> stage_merge ds col k = col k"
  by (induction ds arbitrary: col) auto

lemma stage_merge_in:
  "distinct (map vol_id ds) \<Longrightarrow> d \<in> set ds \<Longrightarrow> stage_merge ds col (vol_id d) = Some d"
proof (induction ds arbitrary: col)
  case Nil
  then show ?case by simp
next
  case (Cons x xs)
  show ?case
  proof (cases "d = x")
    case True
    with Cons.prems have "vol_id x \<notin> vol_id ` set xs" by simp
    then show ?thesis using True by (simp add: stage_merge_other)
  next
    case False
    with Cons show ?thesis by simp
  qed
qed

lemma stage_merge_twice:
  assumes "distinct (map vol_id ds)"
  shows "stage_merge ds (stage_merge ds col) = stage_merge ds col"
proof
  fix k
  show "stage_merge ds (stage_merge ds col) k = stage_merge ds col k"
  proof (cases "k \<in> vol_id ` set ds")
    case True
    then obtain d where "d \<in> set ds" "k = vol_id d" by auto
    then show ?thesis using assms by (simp add: stage_merge_in)
  next
    case False
    then show ?thesis by (simp add: stage_merge_other)
  qed
qed

lemma ids_of_rows:
  "map vol_id (stage_project date (stage_group day txs)) = remdups (map (\<lambda>t. day (trx_stamp t)) txs)"
  by (simp add: stage_project_def stage_group_def comp_def Let_def)

lemma distinct_rows: "distinct (map vol_id (stage_project date (stage_group day txs)))"
  by (simp add: ids_of_rows)

lemma row_of_day:
  assumes "k \<in> set (map (\<lambda>t. day (trx_stamp t)) txs)"
  shows "\<lparr>vol_id = k, vol_stamp = date k,
           vol_volume = sum_list (map trx_amo (filter (\<lambda>t. day (trx_stamp t) = k) txs)),
           vol_value = int (length (filter (\<lambda>t. day (trx_stamp t) = k) txs)),
           vol_gas = sum_list (map trx_gas_use (filter (\<lambda>t. day (trx_stamp t) = k) txs))\<rparr>
         \<in> set (stage_project date (stage_group day txs))"
  using assms by (auto simp: stage_project_def stage_group_def Let_def image_iff)

text \<open>
  C4. When the driver reports no error, running \<open>TrxDailyFlowUpdate\<close> a second time with
  the same \<open>from\<close> over the same transactions gives the same result and the same collection
  as running it once, and the run leaves the transactions as they were. The row of a day
  \<open>k\<close> after a run is determined by the transactions alone: if no transaction stamped at or
  after \<open>from\<close> falls on the day, the row is what the collection held before (replaced by
  nothing, or absent); otherwise it is the one row keyed by \<open>k\<close> with the sums and the count
  of these transactions, whatever the collection held for \<open>k\<close> before.
\<close>

theorem TrxDailyFlowUpdate_idempotent:
  assumes "aggregate_err ops from = None"
  shows "fst (TrxDailyFlowUpdate ops from db) = None
     \<and> TrxDailyFlowUpdate ops from (snd (TrxDailyFlowUpdate ops from db))
         = TrxDailyFlowUpdate ops from db
     \<and> transactions (snd (TrxDailyFlowUpdate ops from db)) = transactions db
     \<and> trx_volume (snd (TrxDailyFlowUpdate ops from db)) k =
         (let ts = filter (\<lambda>t. from \<le> trx_stamp t \<and> dateToString ops (trx_stamp t) = k)
                     (transactions db)
          in if ts = [] then trx_volume db k
             else Some \<lparr>vol_id = k, vol_stamp = toDate ops k,
                        vol_volume = sum_list (map trx_amo ts),
                        vol_value = int (length ts),
                        vol_gas = sum_list (map trx_gas_use ts)\<rparr>)"
proof -
  define txs where "txs = stage_match from (transactions db)"
  define rows where "rows = stage_project (toDate ops) (stage_group (dateToString ops) txs)"
  have upd: "TrxDailyFlowUpdate ops from db
      = (None, db\<lparr>trx_volume := stage_merge rows (trx_volume db)\<rparr>)"
    using assms by (simp add: TrxDailyFlowUpdate_def rows_def txs_def)
  have upd2: "TrxDailyFlowUpdate ops from (db\<lparr>trx_volume := stage_merge rows (trx_volume db)\<rparr>)
      = (None, db\<lparr>trx_volume := stage_merge rows (stage_merge rows (trx_volume db))\<rparr>)"
    using assms by (simp add: TrxDailyFlowUpdate_def rows_def txs_def)
  have d: "distinct (map vol_id rows)" by (simp add: rows_def distinct_rows)
  have twice: "TrxDailyFlowUpdate ops from (snd (TrxDailyFlowUpdate ops from db))
      = TrxDailyFlowUpdate ops from db"
    by (simp add: upd upd2 stage_merge_twice [OF d])
  let ?ts = "filter (\<lambda>t. from \<le> trx_stamp t \<and> dateToString ops (trx_stamp t) = k) (transactions db)"
  have ts: "filter (\<lambda>t. dateToString ops (trx_stamp t) = k) txs = ?ts"
    by (simp add: txs_def stage_match_def)
  have key: "stage_merge rows (trx_volume db) k =
      (if ?ts = [] then trx_volume db k
       else Some \<lparr>vol_id = k, vol_stamp = toDate ops k,
                  vol_volume = sum_list (map trx_amo ?ts),
                  vol_value = int (length ?ts),
                  vol_gas = sum_list (map trx_gas_use ?ts)\<rparr>)"
  proof (cases "?ts = []")
    case True
    then have "k \<notin> set (map (\<lambda>t. dateToString ops (trx_stamp t)) txs)"
      unfolding ts [symmetric] by (auto simp: filter_empty_conv)
    then have "k \<notin> vol_id ` set rows"
      using ids_of_rows [of "toDate ops" "dateToString ops" txs]
      by (metis rows_def set_map set_remdups)
    then show ?thesis using True by (simp add: stage_merge_other)
  next
    case False
    then have "k \<in> set (map (\<lambda>t. dateToString ops (trx_stamp t)) txs)"
      unfolding ts [symmetric] by (auto simp: filter_empty_conv)
    from row_of_day [OF this, of "toDate ops"] have
      "\<lparr>vol_id = k, vol_stamp = toDate ops k,
        vol_volume = sum_list (map trx_amo ?ts),
        vol_value = int (length ?ts),
        vol_gas = sum_list (map trx_gas_use ?ts)\<rparr> \<in> set rows"
      by (simp add: rows_def ts)
    from stage_merge_in [OF d this, of "trx_volume db"] show ?thesis using False by simp
  qed
  have vol: "trx_volume (snd (TrxDailyFlowUpdate ops from db)) k
      = stage_merge rows (trx_volume db) k"
    by (simp add: upd)
  show ?thesis
  proof (intro conjI)
    show "fst (TrxDailyFlowUpdate ops from db) = None" by (simp add: upd)
    show "TrxDailyFlowUpdate ops from (snd (TrxDailyFlowUpdate ops from db))
        = TrxDailyFlowUpdate ops from db" by (rule twice)
    show "transactions (snd (TrxDailyFlowUpdate ops from db)) = transactions db"
      by (simp add: upd)
    show "trx_volume (snd (TrxDailyFlowUpdate ops from db)) k =
         (let ts = filter (\<lambda>t. from \<le> trx_stamp t \<and> dateToString ops (trx_stamp t) = k)
                     (transactions db)
          in if ts = [] then trx_volume db k
             else Some \<lparr>vol_id = k, vol_stamp = toDate ops k,
                        vol_volume = sum_list (map trx_amo ts),
                        vol_value = int (length ts),
                        vol_gas = sum_list (map trx_gas_use ts)\<rparr>)"
      unfolding vol Let_def by (rule key)
  qed
qed

theorem TrxDailyFlowUpdate_idempotent_witness:
  "aggregate_err day_ops 0 = None
   \<and> TrxDailyFlowUpdate day_ops 0 (snd (TrxDailyFlowUpdate day_ops 0 day_db))
       = TrxDailyFlowUpdate day_ops 0 day_db
   \<and> trx_volume (snd (TrxDailyFlowUpdate day_ops 0 (snd (TrxDailyFlowUpdate day_ops 0 day_db))))
        ''1970-01-01''
       = Some \<lparr>vol_id = ''1970-01-01'', vol_stamp = 0, vol_volume = 12, vol_value = 2,
                 vol_gas = 51000\<rparr>"
proof -
  have h: "aggregate_err day_ops 0 = None" by (simp add: day_ops_def)
  note T = TrxDailyFlowUpdate_idempotent [OF h, of day_db "''1970-01-01''"]
  from T have twice: "TrxDailyFlowUpdate day_ops 0 (snd (TrxDailyFlowUpdate day_ops 0 day_db))
       = TrxDailyFlowUpdate day_ops 0 day_db" by simp
  from T have "trx_volume (snd (TrxDailyFlowUpdate day_ops 0 day_db)) ''1970-01-01''
       = Some \<lparr>vol_id = ''1970-01-01'', vol_stamp = 0, vol_volume = 12, vol_value = 2,
                 vol_gas = 51000\<rparr>"
    by (simp add: day_ops_def day_db_def)
  with h twice show ?thesis by simp
qed

section \<open>The contract validator\<close>

text \<open>
  C1. \<open>ValidateContract\<close> first looks up the transaction with the contract's recorded hash.
  When the lookup fails, the call returns the lookup's error. When the transaction it
  finds has no contract address, or one that is not equal under case folding to the
  contract's address, the call returns the error "invalid contract details". In both
  cases the contract and the store are as they were (so the validated flag is), and the
  lookup is the only call made: neither \<open>Compile\<close> nor \<open>MatchArtefact\<close> nor \<open>MarkValidated\<close>
  was called.
\<close>

theorem ValidateContract_rejects:
  "(\<forall>err. repo_Transaction cv (TransactionHash sc) = Inl err \<longrightarrow>
      ValidateContract cv sc st =
        (Some err, sc,
         st\<lparr>cv_log := cv_log st @ [(Error, ''contract deployment not found; '' @ err)],
            cv_calls := cv_calls st @ [Call_Transaction (TransactionHash sc)]\<rparr>))
   \<and> (\<forall>tx. repo_Transaction cv (TransactionHash sc) = Inr tx
          \<and> (ContractAddress tx = None
             \<or> (\<exists>a. ContractAddress tx = Some a \<and> \<not> EqualFold a (Address sc))) \<longrightarrow>
      ValidateContract cv sc st =
        (Some ''invalid contract details'', sc,
         st\<lparr>cv_log := cv_log st
                 @ [(Error, ''invalid contract deployment tx '' @ Hash tx @ '' for '' @ Address sc)],
            cv_calls := cv_calls st @ [Call_Transaction (TransactionHash sc)]\<rparr>))"
  by (auto simp: ValidateContract_def cv_called_def cv_Errorf_def Let_def)

theorem ValidateContract_rejects_witness:
  "ValidateContract cv_example (contract_example ''0xBBbb'' ''0xdead'') cv_state0
     = (Some ''not found'', contract_example ''0xBBbb'' ''0xdead'',
        \<lparr>cv_log = [(Error, ''contract deployment not found; not found'')],
         cv_calls = [Call_Transaction ''0xdead''], cv_store = 0\<rparr>)
   \<and> ValidateContract cv_example (contract_example ''0xBBbb'' ''0xbeef'') cv_state0
     = (Some ''invalid contract details'', contract_example ''0xBBbb'' ''0xbeef'',
        \<lparr>cv_log = [(Error, ''invalid contract deployment tx 0xbeef for 0xBBbb'')],
         cv_calls = [Call_Transaction ''0xbeef''], cv_store = 0\<rparr>)
   \<and> \<not> Validated (contract_example ''0xBBbb'' ''0xbeef'')
   \<and> fst (snd (ValidateContract cv_example (contract_example ''0xaaAA'' ''0xbeef'') cv_state0))
       = (contract_example ''0xaaAA'' ''0xbeef'')\<lparr>Validated := True\<rparr>"
proof -
  let ?c1 = "contract_example ''0xBBbb'' ''0xdead''"
  let ?c2 = "contract_example ''0xBBbb'' ''0xbeef''"
  have h1: "repo_Transaction cv_example (TransactionHash ?c1) = Inl ''not found''"
    by (simp add: cv_example_def contract_example_def)
  have h2: "repo_Transaction cv_example (TransactionHash ?c2)
        = Inr \<lparr>Hash = ''0xbeef'', ContractAddress = Some ''0xAAaa'', InputData = []\<rparr>
      \<and> (ContractAddress \<lparr>Hash = ''0xbeef'', ContractAddress = Some ''0xAAaa'', InputData = []\<rparr> = None
         \<or> (\<exists>a. ContractAddress \<lparr>Hash = ''0xbeef'', ContractAddress = Some ''0xAAaa'', InputData = []\<rparr>
                 = Some a \<and> \<not> EqualFold a (Address ?c2)))"
    by (simp add: cv_example_def contract_example_def fold_eq_def)
  from ValidateContract_rejects [of cv_example ?c1 cv_state0, THEN conjunct1, rule_format, OF h1]
  have 1: "ValidateContract cv_example ?c1 cv_state0
     = (Some ''not found'', ?c1,
        \<lparr>cv_log = [(Error, ''contract deployment not found; not found'')],
         cv_calls = [Call_Transaction ''0xdead''], cv_store = 0\<rparr>)"
    by (simp add: cv_state0_def contract_example_def)
  from ValidateContract_rejects [of cv_example ?c2 cv_state0, THEN conjunct2, rule_format, OF h2]
  have 2: "ValidateContract cv_example ?c2 cv_state0
     = (Some ''invalid contract details'', ?c2,
        \<lparr>cv_log = [(Error, ''invalid contract deployment tx 0xbeef for 0xBBbb'')],
         cv_calls = [Call_Transaction ''0xbeef''], cv_store = 0\<rparr>)"
    by (simp add: cv_state0_def contract_example_def)
  have 3: "\<not> Validated ?c2" by (simp add: contract_example_def)
  have 4: "fst (snd (ValidateContract cv_example (contract_example ''0xaaAA'' ''0xbeef'') cv_state0))
       = (contract_example ''0xaaAA'' ''0xbeef'')\<lparr>Validated := True\<rparr>"
    by (simp add: ValidateContract_def cv_example_def contract_example_def cv_state0_def
        cv_called_def cv_Errorf_def fold_eq_def Let_def)
  from 1 2 3 4 show ?thesis by (intro conjI)
qed

section \<open>The transaction flow updater\<close>

lemma clock_seconds:
  "Clock now = (h, m, sec) \<Longrightarrow> h * 3600 + m * 60 + sec = (now div Second) mod 86400"
  by (auto simp: Clock_def Let_def)

lemma trxFlowFrom_midnight: "trxFlowFrom now = utc_midnight now - 48 * Hour"
proof -
  obtain h m sec where c: "Clock now = (h, m, sec)" by (cases "Clock now") auto
  have "now mod (Second * 86400) = Second * (now div Second mod 86400) + now mod Second"
    by (rule zmod_zmult2_eq) simp
  then have "now mod (86400 * Second) = (now div Second mod 86400) * Second + now mod Second"
    by (simp add: mult.commute)
  moreover have "trxFlowFrom now
      = now + - (h * 3600 + m * 60 + sec) * Second + - (now mod Second) + - 2 * 24 * Hour"
    by (simp only: trxFlowFrom_def c prod.case Add_def Nanosecond_of_def Nanosecond_def
        trxFlowUpdateRange_def mult_1_right)
  ultimately show ?thesis
    by (simp add: clock_seconds [OF c] utc_midnight_def)
qed

lemma tfu_extends_refl: "tfu_extends s [] s"
  by (simp add: tfu_extends_def)

lemma tfu_extends_trans:
  "tfu_extends s cs s' \<Longrightarrow> tfu_extends s' cs' s'' \<Longrightarrow> tfu_extends s (cs @ cs') s''"
  by (auto simp: tfu_extends_def)

lemma tfu_extends_logf:
  "\<not> is_error_entry (lv, msg) \<Longrightarrow> tfu_extends s [] (tfu_logf lv msg s)"
  by (simp add: tfu_extends_def tfu_logf_def)

lemma TrxFlowUpdate_extends:
  "\<exists>err. tfu_extends s [Call_TrxDailyFlowUpdate (utc_midnight now - 48 * Hour) err]
            (TrxFlowUpdate p now s)"
proof -
  let ?from = "utc_midnight now - 48 * Hour"
  obtain err db' where u: "TrxDailyFlowUpdate (mongo p) ?from (tfu_db s) = (err, db')"
    by (cases "TrxDailyFlowUpdate (mongo p) ?from (tfu_db s)") auto
  have "tfu_extends s [Call_TrxDailyFlowUpdate ?from err] (TrxFlowUpdate p now s)"
    by (cases err)
      (simp_all add: TrxFlowUpdate_def trxFlowFrom_midnight u tfu_extends_def tfu_called_def
        tfu_logf_def is_error_entry_def Let_def)
  then show ?thesis ..
qed

lemma updateTrxCountEstimate_extends:
  "\<exists>b. refresh_block b \<and> tfu_extends s b (updateTrxCountEstimate p s)"
proof (cases "TransactionsCount p (tfu_db s) (tfu_repo s)")
  case (Inl e)
  then have "tfu_extends s [Call_TransactionsCount (Inl e)] (updateTrxCountEstimate p s)"
    by (simp add: updateTrxCountEstimate_def tfu_extends_def tfu_called_def tfu_logf_def
        is_error_entry_def Let_def)
  then show ?thesis by (intro exI [of _ "[Call_TransactionsCount (Inl e)]"]) simp
next
  case (Inr v)
  then have "tfu_extends s [Call_TransactionsCount (Inr v), Call_UpdateTrxCountEstimate v]
      (updateTrxCountEstimate p s)"
    by (simp add: updateTrxCountEstimate_def tfu_extends_def tfu_called_def tfu_logf_def
        is_error_entry_def Let_def)
  then show ?thesis
    by (intro exI [of _ "[Call_TransactionsCount (Inr v), Call_UpdateTrxCountEstimate v]"]) simp
qed

lemma event_block_flow:
  "event_block (FlowTick now) [Call_TrxDailyFlowUpdate (utc_midnight now - 48 * Hour) err]"
  by simp

lemma tfu_loop_extends:
  "SigStop \<notin> set evs \<Longrightarrow>
   \<exists>s' bs. tfu_loop p (evs @ SigStop # rest) s = Some s'
          \<and> list_all2 event_block evs bs \<and> tfu_extends s (concat bs) s'"
proof (induction evs arbitrary: s)
  case Nil
  show ?case by (intro exI [of _ s] exI [of _ "[]"]) (simp add: tfu_extends_refl)
next
  case (Cons ev evs)
  then have ne: "ev \<noteq> SigStop" and rest: "SigStop \<notin> set evs" by auto
  show ?case
  proof (cases ev)
    case SigStop
    with ne show ?thesis by simp
  next
    case (FlowTick now)
    let ?s0 = "tfu_logf Info ''calling for trx flow update'' s"
    let ?s1 = "TrxFlowUpdate p now ?s0"
    have e0: "tfu_extends s [] ?s0" by (rule tfu_extends_logf) (simp add: is_error_entry_def)
    obtain err where e1: "tfu_extends ?s0 [Call_TrxDailyFlowUpdate (utc_midnight now - 48 * Hour) err] ?s1"
      using TrxFlowUpdate_extends by blast
    from Cons.IH [OF rest, of ?s1] obtain s' bs where
      l: "tfu_loop p (evs @ SigStop # rest) ?s1 = Some s'"
      and b: "list_all2 event_block evs bs" and e2: "tfu_extends ?s1 (concat bs) s'" by blast
    let ?b = "[Call_TrxDailyFlowUpdate (utc_midnight now - 48 * Hour) err]"
    have "tfu_extends s (concat (?b # bs)) s'"
      using tfu_extends_trans [OF tfu_extends_trans [OF e0 e1] e2] by simp
    moreover have "list_all2 event_block (ev # evs) (?b # bs)"
      using b FlowTick by simp
    moreover have "tfu_loop p ((ev # evs) @ SigStop # rest) s = Some s'"
      using l FlowTick by simp
    ultimately show ?thesis by blast
  next
    case CountTick
    let ?s0 = "tfu_logf Info ''calling for trx count update'' s"
    let ?s1 = "updateTrxCountEstimate p ?s0"
    have e0: "tfu_extends s [] ?s0" by (rule tfu_extends_logf) (simp add: is_error_entry_def)
    obtain b0 where r: "refresh_block b0" and e1: "tfu_extends ?s0 b0 ?s1"
      using updateTrxCountEstimate_extends by blast
    from Cons.IH [OF rest, of ?s1] obtain s' bs where
      l: "tfu_loop p (evs @ SigStop # rest) ?s1 = Some s'"
      and b: "list_all2 event_block evs bs" and e2: "tfu_extends ?s1 (concat bs) s'" by blast
    have "tfu_extends s (concat (b0 # bs)) s'"
      using tfu_extends_trans [OF tfu_extends_trans [OF e0 e1] e2] by simp
    moreover have "list_all2 event_block (ev # evs) (b0 # bs)"
      using b r CountTick by simp
    moreover have "tfu_loop p ((ev # evs) @ SigStop # rest) s = Some s'"
      using l CountTick by simp
    ultimately show ?thesis by blast
  qed
qed












section \<open>Stopping the background loops\<close>

lemma tfu_loop_blocks: "SigStop \<notin> set evs \<Longrightarrow> tfu_loop p evs s = None"
  by (induction p evs s rule: tfu_loop.induct) simp_all

lemma tfu_loop_after_stop:
  "SigStop \<notin> set evs \<Longrightarrow>
   tfu_loop p (evs @ SigStop # rest) s = tfu_loop p (evs @ [SigStop]) s"
  by (induction p evs s rule: tfu_loop.induct) simp_all

lemma schedule_stops:
  assumes "SigStop \<notin> set pre"
  shows "\<exists>s'. schedule p (pre @ SigStop # rest) s = Some s' \<and> tfu_wg s' = tfu_wg s - 1
           \<and> \<not> flowTicker_running s' \<and> \<not> trxCountTicker_running s'"
    and "schedule p (pre @ SigStop # rest) s = schedule p (pre @ [SigStop]) s"
proof -
  let ?s3 = "(tfu_logf Notice ''trx flow updater is running'' s)
      \<lparr>flowTicker_running := True, trxCountTicker_running := True\<rparr>"
  let ?s4 = "updateTrxCountEstimate p ?s3"
  obtain b0 where e0: "tfu_extends ?s3 b0 ?s4"
    using updateTrxCountEstimate_extends [of ?s3 p] by (elim exE conjE)
  from tfu_loop_extends [OF assms, of p rest ?s4]
  obtain s5 bs where l: "tfu_loop p (pre @ SigStop # rest) ?s4 = Some s5"
    and e1: "tfu_extends ?s4 (concat bs) s5"
    by (elim exE conjE)
  from tfu_extends_trans [OF e0 e1] have w: "tfu_wg s5 = tfu_wg s"
    and t1: "flowTicker_running s5" and t2: "trxCountTicker_running s5"
    by (simp_all add: tfu_extends_def tfu_logf_def)
  have r: "schedule p (pre @ SigStop # rest) s = Some (tfu_deferred s5)"
    by (simp add: schedule_def Let_def l)
  have d: "tfu_wg (tfu_deferred s5) = tfu_wg s - 1"
    "\<not> flowTicker_running (tfu_deferred s5)" "\<not> trxCountTicker_running (tfu_deferred s5)"
    using w by (simp_all add: tfu_deferred_def tfu_logf_def Let_def)
  from r d show "\<exists>s'. schedule p (pre @ SigStop # rest) s = Some s' \<and> tfu_wg s' = tfu_wg s - 1
           \<and> \<not> flowTicker_running s' \<and> \<not> trxCountTicker_running s'"
    by (intro exI [of _ "tfu_deferred s5"] conjI)
  have "tfu_loop p (pre @ SigStop # rest) ?s4 = tfu_loop p (pre @ [SigStop]) ?s4"
    by (rule tfu_loop_after_stop [OF assms])
  then show "schedule p (pre @ SigStop # rest) s = schedule p (pre @ [SigStop]) s"
    by (simp add: schedule_def Let_def)
qed

lemma schedule_returns_iff: "schedule p evs s \<noteq> None \<longleftrightarrow> SigStop \<in> set evs"
proof
  assume "schedule p evs s \<noteq> None"
  then show "SigStop \<in> set evs"
    by (rule contrapos_np) (simp add: schedule_def Let_def tfu_loop_blocks)
next
  assume "SigStop \<in> set evs"
  then obtain pre rest where evs: "evs = pre @ SigStop # rest" and pre: "SigStop \<notin> set pre"
    by (auto dest: split_list_first)
  from schedule_stops(1) [OF pre, of p rest s] obtain s' where
    "schedule p (pre @ SigStop # rest) s = Some s'" by (elim exE conjE)
  then show "schedule p evs s \<noteq> None" by (simp add: evs)
qed

lemma rs_loop_blocks: "RsStop \<notin> set evs \<Longrightarrow> rs_loop rs evs s = None"
  by (induction rs evs s rule: rs_loop.induct) simp_all

lemma rs_loop_after_stop:
  "RsStop \<notin> set evs \<Longrightarrow> rs_loop rs (evs @ RsStop # rest) s = rs_loop rs (evs @ [RsStop]) s"
  by (induction rs evs s rule: rs_loop.induct) simp_all

lemma rs_loop_stops:
  "RsStop \<notin> set evs \<Longrightarrow>
   \<exists>s'. rs_loop rs (evs @ RsStop # rest) s = Some s' \<and> rs_wg s' = rs_wg s \<and> rs_log s' = rs_log s"
  by (induction rs evs s rule: rs_loop.induct) (simp_all add: rs_on_subs_def)

lemma rs_run_stops:
  assumes "RsStop \<notin> set pre"
  shows "\<exists>s'. rs_run rs (pre @ RsStop # rest) s = Some s' \<and> rs_wg s' = rs_wg s - 1"
    and "rs_run rs (pre @ RsStop # rest) s = rs_run rs (pre @ [RsStop]) s"
proof -
  let ?s0 = "rs_logf Notice ''GraphQL resolver started'' s"
  from rs_loop_stops [OF assms, of rs rest ?s0]
  obtain s1 where l: "rs_loop rs (pre @ RsStop # rest) ?s0 = Some s1"
    and w: "rs_wg s1 = rs_wg ?s0"
    by (elim exE conjE)
  have r: "rs_run rs (pre @ RsStop # rest) s = Some (rs_deferred s1)"
    by (simp add: rs_run_def l)
  have d: "rs_wg (rs_deferred s1) = rs_wg s - 1"
    using w by (simp add: rs_deferred_def rs_logf_def Let_def)
  from r d show "\<exists>s'. rs_run rs (pre @ RsStop # rest) s = Some s' \<and> rs_wg s' = rs_wg s - 1"
    by (intro exI [of _ "rs_deferred s1"] conjI)
  have "rs_loop rs (pre @ RsStop # rest) ?s0 = rs_loop rs (pre @ [RsStop]) ?s0"
    by (rule rs_loop_after_stop [OF assms])
  then show "rs_run rs (pre @ RsStop # rest) s = rs_run rs (pre @ [RsStop]) s"
    by (simp add: rs_run_def)
qed

lemma rs_run_returns_iff: "rs_run rs evs s \<noteq> None \<longleftrightarrow> RsStop \<in> set evs"
proof
  assume "rs_run rs evs s \<noteq> None"
  then show "RsStop \<in> set evs"
    by (rule contrapos_np) (simp add: rs_run_def rs_loop_blocks)
next
  assume "RsStop \<in> set evs"
  then obtain pre rest where evs: "evs = pre @ RsStop # rest" and pre: "RsStop \<notin> set pre"
    by (auto dest: split_list_first)
  from rs_run_stops(1) [OF pre, of rs rest s] obtain s' where
    "rs_run rs (pre @ RsStop # rest) s = Some s'" by (elim exE conjE)
  then show "rs_run rs evs s \<noteq> None" by (simp add: evs)
qed

text \<open>
  C8. When the updater's scheduler takes the stop signal, after any events \<open>pre\<close> and
  whatever events \<open>rest\<close> would follow, it returns; both tickers are stopped and the wait
  group's counter is one less than it was, and the result is the same as if nothing
  followed the stop signal: no event after it is handled. The same holds of the
  resolver's broadcast loop and its wait group. Each of the two loops returns only when
  its list of events has a stop signal.
\<close>

theorem loops_stop:
  "(SigStop \<notin> set pre \<longrightarrow>
      (\<exists>s'. schedule p (pre @ SigStop # rest) s = Some s' \<and> tfu_wg s' = tfu_wg s - 1
           \<and> \<not> flowTicker_running s' \<and> \<not> trxCountTicker_running s')
      \<and> schedule p (pre @ SigStop # rest) s = schedule p (pre @ [SigStop]) s)
   \<and> (RsStop \<notin> set rpre \<longrightarrow>
      (\<exists>r'. rs_run rs (rpre @ RsStop # rrest) r = Some r' \<and> rs_wg r' = rs_wg r - 1)
      \<and> rs_run rs (rpre @ RsStop # rrest) r = rs_run rs (rpre @ [RsStop]) r)
   \<and> (schedule p evs s \<noteq> None \<longleftrightarrow> SigStop \<in> set evs)
   \<and> (rs_run rs revs r \<noteq> None \<longleftrightarrow> RsStop \<in> set revs)"
proof (intro conjI impI)
  assume a: "SigStop \<notin> set pre"
  show "\<exists>s'. schedule p (pre @ SigStop # rest) s = Some s' \<and> tfu_wg s' = tfu_wg s - 1
           \<and> \<not> flowTicker_running s' \<and> \<not> trxCountTicker_running s'"
    by (rule schedule_stops(1) [OF a])
  show "schedule p (pre @ SigStop # rest) s = schedule p (pre @ [SigStop]) s"
    by (rule schedule_stops(2) [OF a])
next
  assume a: "RsStop \<notin> set rpre"
  show "\<exists>r'. rs_run rs (rpre @ RsStop # rrest) r = Some r' \<and> rs_wg r' = rs_wg r - 1"
    by (rule rs_run_stops(1) [OF a])
  show "rs_run rs (rpre @ RsStop # rrest) r = rs_run rs (rpre @ [RsStop]) r"
    by (rule rs_run_stops(2) [OF a])
next
  show "schedule p evs s \<noteq> None \<longleftrightarrow> SigStop \<in> set evs" by (rule schedule_returns_iff)
  show "rs_run rs revs r \<noteq> None \<longleftrightarrow> RsStop \<in> set revs" by (rule rs_run_returns_iff)
qed

theorem loops_stop_witness:
  "SigStop \<notin> set [FlowTick 90000000000000]
   \<and> (\<exists>s'. schedule repo_example ([FlowTick 90000000000000] @ SigStop # [CountTick]) (tfu_state0 5)
              = Some s'
          \<and> tfu_wg s' = tfu_wg (tfu_state0 5) - 1
          \<and> \<not> flowTicker_running s' \<and> \<not> trxCountTicker_running s')
   \<and> RsStop \<notin> set ([SubscribeOnBlock ''a'', OnBlockEvent 1]
                   :: (string, string, nat, nat) rs_event list)
   \<and> (\<exists>r'. rs_run rs_example ([SubscribeOnBlock ''a'', OnBlockEvent 1] @ RsStop # [OnBlockEvent 2])
              rs_state0 = Some r'
          \<and> rs_wg r' = rs_wg rs_state0 - 1)
   \<and> map_option (\<lambda>r'. (rs_wg r', rs_chans (rs_subs r')))
        (rs_run rs_example ([SubscribeOnBlock ''a'', OnBlockEvent 1] @ RsStop # [OnBlockEvent 2])
           rs_state0)
       = Some (0, [1])"
proof -
  let ?pre = "[FlowTick 90000000000000]"
  let ?rpre = "[SubscribeOnBlock ''a'', OnBlockEvent (1::nat)]
      :: (string, string, nat, nat) rs_event list"
  have h1: "SigStop \<notin> set ?pre" and h2: "RsStop \<notin> set ?rpre" by simp_all
  note T = loops_stop [of ?pre repo_example "[CountTick]" "tfu_state0 5"
      ?rpre rs_example "[OnBlockEvent 2]" rs_state0]
  have 1: "\<exists>s'. schedule repo_example (?pre @ SigStop # [CountTick]) (tfu_state0 5) = Some s'
          \<and> tfu_wg s' = tfu_wg (tfu_state0 5) - 1
          \<and> \<not> flowTicker_running s' \<and> \<not> trxCountTicker_running s'"
    by (rule T [THEN conjunct1, rule_format, OF h1, THEN conjunct1])
  have 2: "\<exists>r'. rs_run rs_example (?rpre @ RsStop # [OnBlockEvent 2]) rs_state0 = Some r'
          \<and> rs_wg r' = rs_wg rs_state0 - 1"
    by (rule T [THEN conjunct2, THEN conjunct1, rule_format, OF h2, THEN conjunct1])
  have 3: "map_option (\<lambda>r'. (rs_wg r', rs_chans (rs_subs r')))
        (rs_run rs_example (?rpre @ RsStop # [OnBlockEvent 2]) rs_state0) = Some (0, [1])"
    by (simp add: rs_run_def rs_on_subs_def rs_example_def rs_state0_def rs_logf_def
        rs_deferred_def Let_def)
  from h1 1 h2 2 3 show ?thesis by (intro conjI)
qed

section \<open>Peer synchronisation\<close>

lemma launch_eq: "launch peers s = s\<lparr>sync_wg := sync_wg s + int (length peers)\<rparr>"
  by (induction peers arbitrary: s) simp_all

lemma run_goroutines_Nil: "run_goroutines net origin sched k [] s = s"
  by (simp add: run_goroutines.simps)

lemma run_goroutines_step:
  "peers \<noteq> [] \<Longrightarrow>
   run_goroutines net origin sched k peers s =
     run_goroutines net origin sched (Suc k)
       (take (sched k mod length peers) peers @ drop (Suc (sched k mod length peers)) peers)
       (syncContractToPeer net (peers ! (sched k mod length peers)) origin s)"
  by (subst run_goroutines.simps) (simp add: Let_def)


lemma run_one: "run_goroutines net origin sched k [p] s = syncContractToPeer net p origin s"
  by (simp add: run_goroutines_step [of "[p]"] run_goroutines_Nil)

lemma run_two:
  "run_goroutines net origin sched k [p1, p2] s =
     (if sched k mod 2 = 0
      then syncContractToPeer net p2 origin (syncContractToPeer net p1 origin s)
      else syncContractToPeer net p1 origin (syncContractToPeer net p2 origin s))"
proof -
  let ?i = "sched k mod length [p1, p2]"
  have two: "length [p1, p2] = 2" by simp
  have step: "run_goroutines net origin sched k [p1, p2] s =
      run_goroutines net origin sched (Suc k) (take ?i [p1, p2] @ drop (Suc ?i) [p1, p2])
        (syncContractToPeer net ([p1, p2] ! ?i) origin s)"
    by (rule run_goroutines_step) simp
  show ?thesis
  proof (cases "sched k mod 2 = 0")
    case True
    then have i: "?i = 0" by (simp only: two)
    show ?thesis unfolding step i using True by (simp add: run_one)
  next
    case False
    then have "sched k mod 2 = 1" by arith
    then have i: "?i = 1" by (simp only: two)
    show ?thesis unfolding step i using False by (simp add: run_one)
  qed
qed











text \<open>
  The request of one attempt, when it can be made: a POST to the peer's URL with the two
  headers, under the timeout of 60 seconds, whose body is what the shared buffer holds at
  that time; and the attempt logs a success exactly when the status code is 200.
\<close>

lemma syncContractToPeer_request:
  fixes origin :: string and s :: sync_state
  assumes "NewRequest_err net ''POST'' peer = None"
  defines "req \<equiv> \<lparr>Method = ''POST'', URL = peer,
                    Header = [''Content-Type'' \<mapsto> ''application/json'', ''Origin'' \<mapsto> origin],
                    Body = payload_buf s, Timeout = 60 * Second\<rparr>"
  shows "issued (syncContractToPeer net peer origin s) = issued s @ [req]"
    and "sync_log (syncContractToPeer net peer origin s) =
           sync_log s @ [(Debug, ''syncing contract validation to '' @ peer @ '' from '' @ origin),
                         (Debug, ''syncing request to '' @ peer @ '' finished with success''),
                         finished_notice peer]
         \<longleftrightarrow> client_Do net req = Response 200"
  using assms(1) unfolding req_def
  by (auto simp: syncContractToPeer_def sync_deferred_def sync_logf_def Let_def
      contractSyncCallTimeout_def finished_notice_def split: do_result.splits if_splits)

text \<open>
  C2 (the defect). With two peers configured that both answer 200, the requests issued are
  a POST to each peer's URL with the headers \<open>Content-Type: application/json\<close> and
  \<open>Origin\<close> set to the server's address, under the timeout of 60 seconds; but only the
  request of the attempt that runs first has the JSON encoding of the payload as its
  body. The attempts share the one buffer, the first request consumes it, and the body of
  the other request is empty, in whatever order the attempts run.
\<close>

theorem syncContract_shared_buffer:
  "map_option (map request_summary \<circ> issued)
     (syncContract (net_example (\<lambda>url. 200)) (\<lambda>k. 0) cfg_example
        (contract_example ''0xAAaa'' ''0xbeef'') sync_state0)
   = Some [(''POST'', ''http://peer1/api'', Some ''application/json'',
            Some ''https://api.example.org'',
            ''{query: '' @ contractSyncMutationQuery @ ''}'', 60 * Second),
           (''POST'', ''http://peer2/api'', Some ''application/json'',
            Some ''https://api.example.org'', [], 60 * Second)]
   \<and> json_Encode (net_example (\<lambda>url. 200))
        (mutation_payload (contract_example ''0xAAaa'' ''0xbeef''))
       = Inr (''{query: '' @ contractSyncMutationQuery @ ''}'')
   \<and> (\<forall>sched. map_option (map Body \<circ> issued)
         (syncContract (net_example (\<lambda>url. 200)) sched cfg_example
            (contract_example ''0xAAaa'' ''0xbeef'') sync_state0)
        = Some [''{query: '' @ contractSyncMutationQuery @ ''}'', []])"
  by (simp add: syncContract_def constructMutationPayload_def json_Encode_def net_example_def
      cfg_example_def sync_state0_def sync_logf_def launch_eq run_two syncContractToPeer_def
      sync_deferred_def request_summary_def mutation_payload_def contractSyncCallTimeout_def
      Let_def)

end
